theory Spec2Isabelle
  imports Main "HOL-Library.Multiset" "HOL-Library.Sublist"
begin

section \<open>Strings as Python sees them\<close>

text \<open>
  A Python \<open>str\<close> is modelled as a \<open>string\<close> (a list of 8-bit characters, read as the
  code points below 256). \<open>len\<close> is \<open>length\<close>, slicing \<open>s[:n]\<close> is \<open>take n\<close>, and
  \<open>+\<close> on strings is \<open>@\<close>.
\<close>

definition lower_char :: "char \<Rightarrow> char" where
  "lower_char c =
     (let n = (of_char c :: nat)
      in if (65 \<le> n \<and> n \<le> 90) \<or> (192 \<le> n \<and> n \<le> 222 \<and> n \<noteq> 215)
         then char_of (n + 32) else c)"

text \<open>\<open>str.lower()\<close>: upper-case letters (ASCII and Latin-1) move to their lower-case form.\<close>

definition str_lower :: "string \<Rightarrow> string" where
  "str_lower s = map lower_char s"

text \<open>
  \<open>s.replace(old, new)\<close>: every non-overlapping occurrence of \<open>old\<close>, found left to
  right, is replaced. With an empty \<open>old\<close> Python inserts \<open>new\<close> around every character.
\<close>

function str_replace :: "string \<Rightarrow> string \<Rightarrow> string \<Rightarrow> string" where
  "str_replace old new s =
     (if old = [] then new @ concat (map (\<lambda>c. c # new) s)
      else if s = [] then []
      else if take (length old) s = old
        then new @ str_replace old new (drop (length old) s)
        else hd s # str_replace old new (tl s))"
  by pat_completeness auto
termination
  by (relation "measure (\<lambda>(old, new, s). length s)") (auto simp: neq_Nil_conv)

declare str_replace.simps [simp del]

text \<open>\<open>word in s\<close> on strings: \<open>word\<close> occurs as a contiguous substring of \<open>s\<close>.\<close>

fun str_contains :: "string \<Rightarrow> string \<Rightarrow> bool" where
  "str_contains word [] = (word = [])"
| "str_contains word (c # cs) =
     (take (length word) (c # cs) = word \<or> str_contains word cs)"

section \<open>Endpoint page emitter (generate-endpoint-docs.py)\<close>

definition is_filename_char :: "char \<Rightarrow> bool" where
  "is_filename_char c =
     (let n = (of_char c :: nat)
      in (97 \<le> n \<and> n \<le> 122) \<or> (48 \<le> n \<and> n \<le> 57) \<or> c = CHR ''-'')"

text \<open>
  \<^verbatim>\<open>
  def sanitize_filename(name):
      name = name.replace("/api/", "").lower()
      name = name.replace("/", "-")
      name = re.sub(r'[^a-z0-9\-]', '', name)
      return name
  \<close>
\<close>

definition sanitize_filename :: "string \<Rightarrow> string" where
  "sanitize_filename name =
     (let name1 = str_lower (str_replace ''/api/'' '''' name);
          name2 = str_replace ''/'' ''-'' name1
      in filter is_filename_char name2)"

text \<open>
  The identifier derivation as the specification words it: the fixed prefix \<open>/api/\<close> is
  stripped (once, at the front), the remainder is lower-cased, every \<open>/\<close> becomes \<open>-\<close>,
  and every character outside \<open>[a-z0-9-]\<close> is removed.
\<close>

definition spec_identifier :: "string \<Rightarrow> string" where
  "spec_identifier path =
     (let rest = (if take 5 path = ''/api/'' then drop 5 path else path)
      in filter is_filename_char
           (map (\<lambda>c. if c = CHR ''/'' then CHR ''-'' else c) (str_lower rest)))"

text \<open>
  The description line of \<open>generate_mdx_content\<close>:
  \<^verbatim>\<open>
  desc = description or summary or f"API endpoint for {path}"
  if len(desc) > 160:
      desc = desc[:157] + "..."
  \<close>
  \<open>x or y\<close> on strings is \<open>x\<close> unless \<open>x\<close> is empty.
\<close>

definition str_or :: "string \<Rightarrow> string \<Rightarrow> string" where
  "str_or x y = (if x \<noteq> [] then x else y)"

definition truncate_desc :: "string \<Rightarrow> string" where
  "truncate_desc desc = (if length desc > 160 then take 157 desc @ ''...'' else desc)"

definition mdx_description :: "string \<Rightarrow> string \<Rightarrow> string \<Rightarrow> string" where
  "mdx_description path summary description =
     truncate_desc (str_or description (str_or summary (''API endpoint for '' @ path)))"

section \<open>JSON values and Python's operations on them\<close>

text \<open>
  What \<open>json.load\<close> returns: \<open>None\<close>, a bool, an int, a str, a list or a dict. A dict
  keeps its keys in insertion order, so it is an association list; a lookup takes the
  first binding of a key (a dict built by \<open>json.load\<close> has each key once).
\<close>

datatype json =
    JNull
  | JBool bool
  | JInt int
  | JStr string
  | JArr "json list"
  | JObj "(string \<times> json) list"

datatype py_error =
    KeyError | TypeError | IndexError | AttributeError | FileNotFoundError | JSONDecodeError

text \<open>\<open>obj[key]\<close> with a string key: only a dict can be subscripted by a string.\<close>

fun py_getitem :: "json \<Rightarrow> string \<Rightarrow> py_error + json" where
  "py_getitem (JObj kvs) k = (case map_of kvs k of None \<Rightarrow> Inl KeyError | Some v \<Rightarrow> Inr v)"
| "py_getitem _ k = Inl TypeError"

text \<open>\<open>for x in obj\<close>: the elements of a list, the characters of a str, the keys of a dict.\<close>

fun py_iter :: "json \<Rightarrow> py_error + json list" where
  "py_iter (JArr xs) = Inr xs"
| "py_iter (JStr s) = Inr (map (\<lambda>c. JStr [c]) s)"
| "py_iter (JObj kvs) = Inr (map (\<lambda>kv. JStr (fst kv)) kvs)"
| "py_iter _ = Inl TypeError"

fun py_len :: "json \<Rightarrow> py_error + nat" where
  "py_len (JArr xs) = Inr (length xs)"
| "py_len (JStr s) = Inr (length s)"
| "py_len (JObj kvs) = Inr (length kvs)"
| "py_len _ = Inl TypeError"

text \<open>\<open>obj[0]\<close> and \<open>obj[1:]\<close>. A dict has no key \<open>0\<close> (its keys are strings) and cannot be sliced.\<close>

fun py_first :: "json \<Rightarrow> py_error + json" where
  "py_first (JArr []) = Inl IndexError"
| "py_first (JArr (x # xs)) = Inr x"
| "py_first (JStr []) = Inl IndexError"
| "py_first (JStr (c # cs)) = Inr (JStr [c])"
| "py_first (JObj kvs) = Inl KeyError"
| "py_first _ = Inl TypeError"

fun py_rest :: "json \<Rightarrow> py_error + json" where
  "py_rest (JArr xs) = Inr (JArr (drop 1 xs))"
| "py_rest (JStr s) = Inr (JStr (drop 1 s))"
| "py_rest _ = Inl TypeError"

text \<open>\<open>d[k] = v\<close>: an existing key keeps its place, a new key goes to the end.\<close>

fun dict_set :: "(string \<times> 'v) list \<Rightarrow> string \<Rightarrow> 'v \<Rightarrow> (string \<times> 'v) list" where
  "dict_set [] k v = [(k, v)]"
| "dict_set ((k', v') # d) k v = (if k' = k then (k, v) # d else (k', v') # dict_set d k v)"

text \<open>\<open>d[k].append(v)\<close> for a key the dict holds.\<close>

fun dict_append :: "(string \<times> 'v list) list \<Rightarrow> string \<Rightarrow> 'v \<Rightarrow> (string \<times> 'v list) list" where
  "dict_append [] k v = []"
| "dict_append ((k', vs) # d) k v =
     (if k' = k then (k', vs @ [v]) # d else (k', vs) # dict_append d k v)"

section \<open>Locating and replacing the API reference tab\<close>

text \<open>
  The three navigation scripts share this prologue:
  \<^verbatim>\<open>
  api_tab = None
  for tab in docs_data['navigation']['tabs']:
      if tab['tab'] == 'API reference':
          api_tab = tab
          break
  if not api_tab:
      print("Could not find 'API reference' tab in docs.json")
      return
  \<close>
  The loop yields the position of the first tab with that name together with the tab.
\<close>

fun find_api_tab :: "json list \<Rightarrow> nat \<Rightarrow> py_error + (nat \<times> json) option" where
  "find_api_tab [] i = Inr None"
| "find_api_tab (tab # tabs) i =
     (case py_getitem tab ''tab'' of
        Inl e \<Rightarrow> Inl e
      | Inr name \<Rightarrow>
          if name = JStr ''API reference'' then Inr (Some (i, tab))
          else find_api_tab tabs (Suc i))"

definition locate_api_tab :: "json \<Rightarrow> py_error + (nat \<times> json) option" where
  "locate_api_tab docs_data =
     (case py_getitem docs_data ''navigation'' of
        Inl e \<Rightarrow> Inl e
      | Inr nav \<Rightarrow>
         (case py_getitem nav ''tabs'' of
            Inl e \<Rightarrow> Inl e
          | Inr tabs \<Rightarrow>
             (case py_iter tabs of
                Inl e \<Rightarrow> Inl e
              | Inr ts \<Rightarrow> find_api_tab ts 0)))"

text \<open>
  \<open>api_tab['groups'] = new_groups\<close> assigns through the reference \<open>api_tab\<close> into
  \<open>docs_data\<close>: the tab at position \<open>i\<close> of \<open>docs_data['navigation']['tabs']\<close> gets the
  new \<open>groups\<close>, everything else stays. (A tab is only ever found in a list of dicts, so
  the other shapes are left as they are.)
\<close>

definition set_api_tab_groups :: "json \<Rightarrow> nat \<Rightarrow> json \<Rightarrow> json" where
  "set_api_tab_groups docs_data i new_groups =
     (case docs_data of
        JObj d \<Rightarrow>
         (case map_of d ''navigation'' of
            Some (JObj n) \<Rightarrow>
             (case map_of n ''tabs'' of
                Some (JArr ts) \<Rightarrow>
                 (if i < length ts then
                    (case ts ! i of
                       JObj t \<Rightarrow>
                         JObj (dict_set d ''navigation''
                           (JObj (dict_set n ''tabs''
                             (JArr (ts[i := JObj (dict_set t ''groups'' new_groups)])))))
                     | _ \<Rightarrow> docs_data)
                  else docs_data)
              | _ \<Rightarrow> docs_data)
          | _ \<Rightarrow> docs_data)
      | _ \<Rightarrow> docs_data)"

text \<open>The introduction group that two of the scripts write as a literal.\<close>

definition intro_group :: json where
  "intro_group =
     JObj [(''group'', JStr ''API documentation''),
           (''pages'', JArr [JStr ''api-reference/introduction''])]"

text \<open>
  The result of a merge on the parsed document: the tab is missing (the script prints its
  message and returns), or the document to be written back.
\<close>

datatype merged = NoTab | Merged json

section \<open>Full replacement (update-docs-navigation.py)\<close>

text \<open>
  \<^verbatim>\<open>
  intro_group = {"group": "API documentation", "pages": ["api-reference/introduction"]}
  api_tab['groups'] = [intro_group] + endpoint_nav
  \<close>
  \<open>list + x\<close> raises TypeError unless \<open>x\<close> is a list. Before the tab is looked for,
  the script prints \<open>len(endpoint_nav)\<close>, which raises TypeError on a value without a
  length.
\<close>

definition update_merge :: "json \<Rightarrow> json \<Rightarrow> py_error + merged" where
  "update_merge docs_data endpoint_nav =
     (case py_len endpoint_nav of
        Inl e \<Rightarrow> Inl e
      | Inr n \<Rightarrow>
         (case locate_api_tab docs_data of
            Inl e \<Rightarrow> Inl e
          | Inr None \<Rightarrow> Inr NoTab
          | Inr (Some (i, api_tab)) \<Rightarrow>
             (case endpoint_nav of
                JArr nav \<Rightarrow>
                  Inr (Merged (set_api_tab_groups docs_data i (JArr (intro_group # nav))))
              | _ \<Rightarrow> Inl TypeError)))"

section \<open>Accordion regroup (improve-endpoint-navigation.py)\<close>

text \<open>
  \<open>Path(page).stem\<close> on a POSIX path: the last component of the path (empty and \<open>.\<close>
  components dropped), cut before its last dot unless that dot is the first or the last
  character of the component.
\<close>

fun str_split :: "char \<Rightarrow> string \<Rightarrow> string list" where
  "str_split sep [] = [[]]"
| "str_split sep (c # cs) =
     (if c = sep then [] # str_split sep cs
      else (case str_split sep cs of
              [] \<Rightarrow> [[c]]
            | w # ws \<Rightarrow> (c # w) # ws))"

definition path_name :: "string \<Rightarrow> string" where
  "path_name p =
     (case rev (filter (\<lambda>part. part \<noteq> [] \<and> part \<noteq> ''.'') (str_split CHR ''/'' p)) of
        [] \<Rightarrow> []
      | name # _ \<Rightarrow> name)"

definition rfind_dot :: "string \<Rightarrow> nat option" where
  "rfind_dot name =
     (case filter (\<lambda>i. name ! i = CHR ''.'') (rev [0..<length name]) of
        [] \<Rightarrow> None
      | i # _ \<Rightarrow> Some i)"

definition path_stem :: "string \<Rightarrow> string" where
  "path_stem p =
     (let name = path_name p
      in case rfind_dot name of
           None \<Rightarrow> name
         | Some i \<Rightarrow> if 0 < i \<and> i < length name - 1 then take i name else name)"

text \<open>\<open>any(word in filename for word in words)\<close>\<close>

definition any_word_in :: "string list \<Rightarrow> string \<Rightarrow> bool" where
  "any_word_in words filename = list_ex (\<lambda>word. str_contains word filename) words"

text \<open>
  The \<open>if\<close>/\<open>elif\<close> chain of \<open>categorize_endpoints\<close>, which picks the list a page is
  appended to:
  \<^verbatim>\<open>
  filename = Path(page).stem.lower()
  if any(word in filename for word in ['create', 'add', 'upload', 'generate', 'initiate', 'calibrate']):
      categories['Create & Add'].append(page)
  elif any(word in filename for word in ['get', 'find', 'search', 'list']):
      categories['Get & Find'].append(page)
  elif any(word in filename for word in ['update', 'edit', 'modify', 'assign', 'remove', 'revoke', 'suspend', 'unsuspend']):
      categories['Update & Modify'].append(page)
  elif any(word in filename for word in ['delete', 'erase']):
      categories['Delete & Remove'].append(page)
  else:
      categories['Other Operations'].append(page)
  \<close>
\<close>

definition action_category :: "string \<Rightarrow> string" where
  "action_category page =
     (let filename = str_lower (path_stem page)
      in if any_word_in [''create'', ''add'', ''upload'', ''generate'', ''initiate'', ''calibrate''] filename
           then ''Create & Add''
         else if any_word_in [''get'', ''find'', ''search'', ''list''] filename
           then ''Get & Find''
         else if any_word_in [''update'', ''edit'', ''modify'', ''assign'', ''remove'', ''revoke'',
                              ''suspend'', ''unsuspend''] filename
           then ''Update & Modify''
         else if any_word_in [''delete'', ''erase''] filename
           then ''Delete & Remove''
         else ''Other Operations'')"

definition empty_categories :: "(string \<times> json list) list" where
  "empty_categories =
     [(''Create & Add'', []), (''Get & Find'', []), (''Update & Modify'', []),
      (''Delete & Remove'', []), (''Other Operations'', [])]"

text \<open>
  The loop \<open>for page in pages\<close>. \<open>Path(page)\<close> raises TypeError when \<open>page\<close> is not a
  string; the exception leaves the function.
\<close>

fun categorize_loop ::
  "json list \<Rightarrow> (string \<times> json list) list \<Rightarrow> py_error + (string \<times> json list) list" where
  "categorize_loop [] categories = Inr categories"
| "categorize_loop (page # pages) categories =
     (case page of
        JStr p \<Rightarrow> categorize_loop pages (dict_append categories (action_category p) page)
      | _ \<Rightarrow> Inl TypeError)"

text \<open>\<open>return {k: v for k, v in categories.items() if v}\<close> drops the empty lists.\<close>

definition categorize_endpoints :: "json list \<Rightarrow> py_error + (string \<times> json list) list" where
  "categorize_endpoints pages =
     (case categorize_loop pages empty_categories of
        Inl e \<Rightarrow> Inl e
      | Inr categories \<Rightarrow> Inr (filter (\<lambda>kv. snd kv \<noteq> []) categories))"

text \<open>
  The body of the loop over the tab's groups:
  \<^verbatim>\<open>
  category_name = group['group']
  pages = group['pages']
  if len(pages) > 10:
      categorized = categorize_endpoints(pages)
      new_group = {"group": category_name, "pages": []}
      for action_category, action_pages in categorized.items():
          if action_pages:
              new_group['pages'].append({"group": action_category, "pages": action_pages})
      new_groups.append(new_group)
  else:
      new_groups.append(group)
  \<close>
\<close>

definition sub_group :: "string \<times> json list \<Rightarrow> json" where
  "sub_group kv = JObj [(''group'', JStr (fst kv)), (''pages'', JArr (snd kv))]"

definition accordion_group :: "json \<Rightarrow> py_error + json" where
  "accordion_group grp =
     (case py_getitem grp ''group'' of
        Inl e \<Rightarrow> Inl e
      | Inr category_name \<Rightarrow>
         (case py_getitem grp ''pages'' of
            Inl e \<Rightarrow> Inl e
          | Inr pages \<Rightarrow>
             (case py_len pages of
                Inl e \<Rightarrow> Inl e
              | Inr n \<Rightarrow>
                 if n > 10 then
                   (case py_iter pages of
                      Inl e \<Rightarrow> Inl e
                    | Inr items \<Rightarrow>
                       (case categorize_endpoints items of
                          Inl e \<Rightarrow> Inl e
                        | Inr categorized \<Rightarrow>
                            Inr (JObj [(''group'', category_name),
                                       (''pages'', JArr (map sub_group
                                          (filter (\<lambda>kv. snd kv \<noteq> []) categorized)))])))
                 else Inr grp)))"

fun accordion_groups :: "json list \<Rightarrow> py_error + json list" where
  "accordion_groups [] = Inr []"
| "accordion_groups (grp # groups) =
     (case accordion_group grp of
        Inl e \<Rightarrow> Inl e
      | Inr g \<Rightarrow>
         (case accordion_groups groups of
            Inl e \<Rightarrow> Inl e
          | Inr gs \<Rightarrow> Inr (g # gs)))"

text \<open>
  \<^verbatim>\<open>
  intro_group = {"group": "API documentation", "pages": ["api-reference/introduction"]}
  new_groups = [intro_group]
  for group in api_tab['groups'][1:]:  # Skip intro group
      ...
  api_tab['groups'] = new_groups
  \<close>
\<close>

definition accordion_new_groups :: "json \<Rightarrow> py_error + json list" where
  "accordion_new_groups api_tab =
     (case py_getitem api_tab ''groups'' of
        Inl e \<Rightarrow> Inl e
      | Inr groups \<Rightarrow>
         (case py_rest groups of
            Inl e \<Rightarrow> Inl e
          | Inr rest \<Rightarrow>
             (case py_iter rest of
                Inl e \<Rightarrow> Inl e
              | Inr existing \<Rightarrow>
                 (case accordion_groups existing of
                    Inl e \<Rightarrow> Inl e
                  | Inr gs \<Rightarrow> Inr (intro_group # gs)))))"

definition accordion_merge :: "json \<Rightarrow> py_error + merged" where
  "accordion_merge docs_data =
     (case locate_api_tab docs_data of
        Inl e \<Rightarrow> Inl e
      | Inr None \<Rightarrow> Inr NoTab
      | Inr (Some (i, api_tab)) \<Rightarrow>
         (case accordion_new_groups api_tab of
            Inl e \<Rightarrow> Inl e
          | Inr new_groups \<Rightarrow> Inr (Merged (set_api_tab_groups docs_data i (JArr new_groups)))))"

section \<open>Service-level regroup (add-service-level-navigation.py)\<close>

definition SERVICE_GROUPS :: "(string \<times> string list) list" where
  "SERVICE_GROUPS =
     [(''Core Services'',
        [''Access Control'', ''Camera'', ''Door'', ''Door Controller'', ''Doorbell Camera'',
         ''User'', ''Users'', ''Badge Reader'', ''Sensor'', ''Climate'', ''Button'', ''Relay'',
         ''Media Device'']),
      (''Events & Monitoring'',
        [''Event'', ''Events'', ''Event Search'', ''Alert Monitoring'',
         ''Face Recognition Event'', ''Face Recognition Matchmaker'',
         ''Face Recognition Person'', ''Proximity'', ''Occupancy'']),
      (''Integrations'',
        [''Access Control Integrations'', ''Service Management Integrations'',
         ''Incident Management Integrations'', ''IoT Integrations'', ''Storage Integrations'',
         ''Webhook Integrations'', ''Org Integrations'', ''Integrations'']),
      (''Organization & Management'',
        [''Organization'', ''Org'', ''Location'', ''Locations'', ''Customer'', ''Partner'',
         ''License'', ''Permission'', ''User Metadata'']),
      (''Security & Access'',
        [''OAuth'', ''Alarm Monitoring Keypad'', ''Guest Management Kiosk'', ''Lockdown Plan'',
         ''RapidSOS'']),
      (''Media & Video'',
        [''Video'', ''Export'', ''AudioGateway'', ''AudioPlayback'', ''TvOS Config'']),
      (''Automation & Rules'',
        [''Rules'', ''Rules Records'', ''Schedule'', ''Policies'', ''Policy'']),
      (''Device Management'',
        [''Device Config'', ''Component'', ''Components'', ''BLE'']),
      (''Data & Reporting'',
        [''Report'', ''Reports'', ''Search'', ''Logistics'', ''Vehicle'', ''Vehicles'']),
      (''Developer & System'',
        [''Developer'', ''Feature'', ''Help'', ''Upload''])]"

text \<open>
  \<^verbatim>\<open>
  def categorize_group(group_name):
      for service, groups in SERVICE_GROUPS.items():
          if group_name in groups:
              return service
      return "Other Services"
  \<close>
  \<open>group_name in groups\<close> compares with \<open>==\<close>, so a name that is not a string is in no
  list. The loop is written over the table it walks.
\<close>

fun categorize_in :: "(string \<times> string list) list \<Rightarrow> json \<Rightarrow> string" where
  "categorize_in [] group_name = ''Other Services''"
| "categorize_in ((service, groups) # table) group_name =
     (if group_name \<in> set (map JStr groups) then service
      else categorize_in table group_name)"

definition categorize_group :: "json \<Rightarrow> string" where
  "categorize_group group_name = categorize_in SERVICE_GROUPS group_name"

text \<open>
  \<^verbatim>\<open>
  if service not in service_structure:
      service_structure[service] = []
  service_structure[service].append(group)
  \<close>
\<close>

definition structure_append ::
  "(string \<times> json list) list \<Rightarrow> string \<Rightarrow> json \<Rightarrow> (string \<times> json list) list" where
  "structure_append service_structure service grp =
     (let s1 = (if map_of service_structure service = None
                then dict_set service_structure service []
                else service_structure)
      in dict_append s1 service grp)"

text \<open>
  \<^verbatim>\<open>
  for group in existing_groups:
      group_name = group['group']
      service = categorize_group(group_name)
      if service == "Other Services":
          uncategorized.append(group)
      else:
          ... service_structure[service].append(group)
  \<close>
\<close>

fun organize_loop ::
  "json list \<Rightarrow> (string \<times> json list) list \<Rightarrow> json list \<Rightarrow>
   py_error + ((string \<times> json list) list \<times> json list)" where
  "organize_loop [] service_structure uncategorized = Inr (service_structure, uncategorized)"
| "organize_loop (grp # groups) service_structure uncategorized =
     (case py_getitem grp ''group'' of
        Inl e \<Rightarrow> Inl e
      | Inr group_name \<Rightarrow>
         (let service = categorize_group group_name
          in if service = ''Other Services''
             then organize_loop groups service_structure (uncategorized @ [grp])
             else organize_loop groups (structure_append service_structure service grp)
                    uncategorized))"

text \<open>
  \<^verbatim>\<open>
  new_groups = [intro_group]
  for service_name in SERVICE_GROUPS.keys():
      if service_name in service_structure:
          new_groups.append({"group": service_name, "pages": service_structure[service_name]})
  if uncategorized:
      new_groups.append({"group": "Other Services", "pages": uncategorized})
  \<close>
\<close>

fun emit_services :: "string list \<Rightarrow> (string \<times> json list) list \<Rightarrow> json list" where
  "emit_services [] service_structure = []"
| "emit_services (service_name # names) service_structure =
     (case map_of service_structure service_name of
        None \<Rightarrow> emit_services names service_structure
      | Some categories \<Rightarrow>
          sub_group (service_name, categories) # emit_services names service_structure)"

definition emit_uncategorized :: "json list \<Rightarrow> json list" where
  "emit_uncategorized uncategorized =
     (if uncategorized \<noteq> [] then [sub_group (''Other Services'', uncategorized)] else [])"

text \<open>
  \<^verbatim>\<open>
  intro_group = api_tab['groups'][0]
  existing_groups = api_tab['groups'][1:]
  \<close>
\<close>

definition service_new_groups :: "json \<Rightarrow> py_error + json list" where
  "service_new_groups api_tab =
     (case py_getitem api_tab ''groups'' of
        Inl e \<Rightarrow> Inl e
      | Inr groups \<Rightarrow>
         (case py_first groups of
            Inl e \<Rightarrow> Inl e
          | Inr intro \<Rightarrow>
             (case py_rest groups of
                Inl e \<Rightarrow> Inl e
              | Inr rest \<Rightarrow>
                 (case py_iter rest of
                    Inl e \<Rightarrow> Inl e
                  | Inr existing_groups \<Rightarrow>
                     (case organize_loop existing_groups [] [] of
                        Inl e \<Rightarrow> Inl e
                      | Inr (service_structure, uncategorized) \<Rightarrow>
                          Inr (intro # emit_services (map fst SERVICE_GROUPS) service_structure
                                 @ emit_uncategorized uncategorized))))))"

definition service_merge :: "json \<Rightarrow> py_error + merged" where
  "service_merge docs_data =
     (case locate_api_tab docs_data of
        Inl e \<Rightarrow> Inl e
      | Inr None \<Rightarrow> Inr NoTab
      | Inr (Some (i, api_tab)) \<Rightarrow>
         (case service_new_groups api_tab of
            Inl e \<Rightarrow> Inl e
          | Inr new_groups \<Rightarrow> Inr (Merged (set_api_tab_groups docs_data i (JArr new_groups)))))"

section \<open>Notions used to state the properties of the tree builders\<close>

text \<open>The bucket a page of \<open>categorize_endpoints\<close> falls into.\<close>

definition page_category :: "json \<Rightarrow> string" where
  "page_category page = (case page of JStr p \<Rightarrow> action_category p | _ \<Rightarrow> [])"

definition action_names :: "string list" where
  "action_names = map fst empty_categories"

text \<open>The service bucket of a category group, by its \<open>group\<close> field.\<close>

definition group_service :: "json \<Rightarrow> string" where
  "group_service g =
     (case py_getitem g ''group'' of Inr name \<Rightarrow> categorize_group name | Inl e \<Rightarrow> [])"

text \<open>The children of an emitted group.\<close>

definition group_pages :: "json \<Rightarrow> json list" where
  "group_pages g = (case py_getitem g ''pages'' of Inr (JArr ps) \<Rightarrow> ps | _ \<Rightarrow> [])"

text \<open>
  A stable partition of \<open>xs\<close> by \<open>f\<close>: one bucket per key, in the order of \<open>keys\<close>, each
  holding the items of that key in their original order; empty buckets are left out.
\<close>

definition buckets :: "string list \<Rightarrow> ('a \<Rightarrow> string) \<Rightarrow> 'a list \<Rightarrow> (string \<times> 'a list) list" where
  "buckets keys f xs =
     filter (\<lambda>kv. snd kv \<noteq> []) (map (\<lambda>k. (k, filter (\<lambda>x. f x = k) xs)) keys)"


section \<open>A sample tab for the accordion regroup\<close>







section \<open>Reading the tab back\<close>

text \<open>The groups of the API reference tab of a document, and their element 0.\<close>

definition api_tab_groups :: "json \<Rightarrow> py_error + json" where
  "api_tab_groups docs_data =
     (case locate_api_tab docs_data of
        Inl e \<Rightarrow> Inl e
      | Inr None \<Rightarrow> Inl KeyError
      | Inr (Some (i, api_tab)) \<Rightarrow> py_getitem api_tab ''groups'')"

definition first_group :: "json \<Rightarrow> py_error + json" where
  "first_group docs_data =
     (case api_tab_groups docs_data of Inl e \<Rightarrow> Inl e | Inr groups \<Rightarrow> py_first groups)"

text \<open>A document whose tab starts with an introduction entry of its own.\<close>

definition overview_group :: json where
  "overview_group =
     JObj [(''group'', JStr ''Overview''), (''pages'', JArr [JStr ''api-reference/overview''])]"

definition camera_group :: json where
  "camera_group =
     JObj [(''group'', JStr ''Camera''), (''pages'', JArr [JStr ''api-reference/endpoint/camera/camera-getlist''])]"

definition overview_docs :: json where
  "overview_docs =
     JObj [(''name'', JStr ''Docs''),
           (''navigation'', JObj [(''tabs'', JArr
              [JObj [(''tab'', JStr ''Guides''), (''groups'', JArr [])],
               JObj [(''tab'', JStr ''API reference''),
                     (''groups'', JArr [overview_group, camera_group])]])])]"

section \<open>Project summarizer (update-llms-files.py)\<close>

text \<open>
  \<^verbatim>\<open>
  def count_endpoints_in_nav(self, nav_data):
      endpoint_counts = {}
      def traverse(obj, current_category=None):
          if isinstance(obj, dict):
              if "group" in obj:
                  current_category = obj["group"]
                  endpoint_counts[current_category] = 0
              if "pages" in obj and isinstance(obj["pages"], list):
                  for page in obj["pages"]:
                      if isinstance(page, str) and current_category:
                          endpoint_counts[current_category] += 1
                      elif isinstance(page, dict):
                          traverse(page, current_category)
              for value in obj.values():
                  traverse(value, current_category)
          elif isinstance(obj, list):
              for item in obj:
                  traverse(item, current_category)
      traverse(nav_data)
      return endpoint_counts
  \<close>
  \<open>endpoint_counts\<close> is threaded through the calls as an association list from keys to
  counts.
\<close>

text \<open>
  Keys of a Python dict: a list or a dict is not hashable; \<open>True\<close> and \<open>1\<close> (and \<open>False\<close>
  and \<open>0\<close>) are the same key.
\<close>

fun hashable :: "json \<Rightarrow> bool" where
  "hashable (JArr xs) = False"
| "hashable (JObj kvs) = False"
| "hashable _ = True"

fun key_norm :: "json \<Rightarrow> json" where
  "key_norm (JBool b) = JInt (if b then 1 else 0)"
| "key_norm k = k"

text \<open>The truth value of an \<open>if x:\<close> test.\<close>

fun truthy :: "json \<Rightarrow> bool" where
  "truthy JNull = False"
| "truthy (JBool b) = b"
| "truthy (JInt i) = (i \<noteq> 0)"
| "truthy (JStr s) = (s \<noteq> [])"
| "truthy (JArr xs) = (xs \<noteq> [])"
| "truthy (JObj kvs) = (kvs \<noteq> [])"

text \<open>\<open>endpoint_counts[k] = 0\<close> and \<open>endpoint_counts[k] += 1\<close>\<close>

fun counts_reset :: "(json \<times> nat) list \<Rightarrow> json \<Rightarrow> (json \<times> nat) list" where
  "counts_reset [] k = [(k, 0)]"
| "counts_reset ((k', n) # counts) k =
     (if key_norm k' = key_norm k then (k', 0) # counts else (k', n) # counts_reset counts k)"

fun counts_incr :: "(json \<times> nat) list \<Rightarrow> json \<Rightarrow> (json \<times> nat) list" where
  "counts_incr [] k = []"
| "counts_incr ((k', n) # counts) k =
     (if key_norm k' = key_norm k then (k', Suc n) # counts else (k', n) # counts_incr counts k)"

text \<open>
  The head of \<open>traverse\<close> on a dict:
  \<^verbatim>\<open>
  if "group" in obj:
      current_category = obj["group"]
      endpoint_counts[current_category] = 0
  \<close>
\<close>

definition enter_group ::
  "(string \<times> json) list \<Rightarrow> json option \<Rightarrow> (json \<times> nat) list \<Rightarrow>
   py_error + (json option \<times> (json \<times> nat) list)" where
  "enter_group kvs current_category counts =
     (case map_of kvs ''group'' of
        None \<Rightarrow> Inr (current_category, counts)
      | Some cat \<Rightarrow>
          if hashable cat then Inr (Some cat, counts_reset counts cat) else Inl TypeError)"

text \<open>
  The pages the loop \<open>for page in obj["pages"]\<close> runs over; it runs only when
  \<open>"pages" in obj and isinstance(obj["pages"], list)\<close>.
\<close>

definition pages_of :: "(string \<times> json) list \<Rightarrow> json list" where
  "pages_of kvs = (case map_of kvs ''pages'' of Some (JArr pages) \<Rightarrow> pages | _ \<Rightarrow> [])"

text \<open>\<open>if isinstance(page, str) and current_category: endpoint_counts[current_category] += 1\<close>\<close>

definition count_leaf :: "json option \<Rightarrow> (json \<times> nat) list \<Rightarrow> (json \<times> nat) list" where
  "count_leaf current_category counts =
     (case current_category of
        None \<Rightarrow> counts
      | Some cat \<Rightarrow> if truthy cat then counts_incr counts cat else counts)"

lemma size_map_of:
  "map_of kvs k = Some v \<Longrightarrow> size v < Suc (size_list (size_prod (\<lambda>_. 0) size) kvs)"
  by (induction kvs) (auto split: if_splits)

lemma size_pages_of:
  "size_list size (pages_of kvs) < Suc (size_list (size_prod (\<lambda>_. 0) size) kvs)"
proof (cases "map_of kvs ''pages''")
  case None
  then show ?thesis by (simp add: pages_of_def)
next
  case (Some v)
  from size_map_of [OF Some] show ?thesis
    by (cases v) (auto simp: pages_of_def Some)
qed

function traverse :: "json \<Rightarrow> json option \<Rightarrow> (json \<times> nat) list \<Rightarrow> py_error + (json \<times> nat) list"
and traverse_pages ::
  "json list \<Rightarrow> json option \<Rightarrow> (json \<times> nat) list \<Rightarrow> py_error + (json \<times> nat) list"
and traverse_values ::
  "(string \<times> json) list \<Rightarrow> json option \<Rightarrow> (json \<times> nat) list \<Rightarrow> py_error + (json \<times> nat) list"
and traverse_items ::
  "json list \<Rightarrow> json option \<Rightarrow> (json \<times> nat) list \<Rightarrow> py_error + (json \<times> nat) list"
where
  "traverse (JObj kvs) current_category counts =
     (case enter_group kvs current_category counts of
        Inl e \<Rightarrow> Inl e
      | Inr st \<Rightarrow>
         (case traverse_pages (pages_of kvs) (fst st) (snd st) of
            Inl e \<Rightarrow> Inl e
          | Inr counts2 \<Rightarrow> traverse_values kvs (fst st) counts2))"
| "traverse (JArr xs) current_category counts = traverse_items xs current_category counts"
| "traverse JNull current_category counts = Inr counts"
| "traverse (JBool b) current_category counts = Inr counts"
| "traverse (JInt i) current_category counts = Inr counts"
| "traverse (JStr s) current_category counts = Inr counts"
| "traverse_pages [] current_category counts = Inr counts"
| "traverse_pages (page # pages) current_category counts =
     (case (case page of
              JStr s \<Rightarrow> Inr (count_leaf current_category counts)
            | JObj kvs \<Rightarrow> traverse page current_category counts
            | _ \<Rightarrow> Inr counts) of
        Inl e \<Rightarrow> Inl e
      | Inr counts1 \<Rightarrow> traverse_pages pages current_category counts1)"
| "traverse_values [] current_category counts = Inr counts"
| "traverse_values (kv # kvs) current_category counts =
     (case traverse (snd kv) current_category counts of
        Inl e \<Rightarrow> Inl e
      | Inr counts1 \<Rightarrow> traverse_values kvs current_category counts1)"
| "traverse_items [] current_category counts = Inr counts"
| "traverse_items (item # items) current_category counts =
     (case traverse item current_category counts of
        Inl e \<Rightarrow> Inl e
      | Inr counts1 \<Rightarrow> traverse_items items current_category counts1)"
  by pat_completeness auto
termination
  by (relation "measure (\<lambda>x. case x of
          Inl (Inl (obj, _)) \<Rightarrow> size obj
        | Inl (Inr (pages, _)) \<Rightarrow> size_list size pages
        | Inr (Inl (kvs, _)) \<Rightarrow> size_list (size_prod (\<lambda>_. 0) size) kvs
        | Inr (Inr (items, _)) \<Rightarrow> size_list size items)")
     (auto simp: size_pages_of)

text \<open>\<open>traverse(nav_data)\<close> starts with no category and empty counts.\<close>

definition count_endpoints_in_nav :: "json \<Rightarrow> py_error + (json \<times> nat) list" where
  "count_endpoints_in_nav nav_data = traverse nav_data None []"

text \<open>\<open>"total_endpoints": sum(endpoint_counts.values())\<close>\<close>

definition total_endpoints :: "json \<Rightarrow> py_error + nat" where
  "total_endpoints nav_data =
     (case count_endpoints_in_nav nav_data of
        Inl e \<Rightarrow> Inl e
      | Inr endpoint_counts \<Rightarrow> Inr (sum_list (map snd endpoint_counts)))"

text \<open>
  \<open>analyze_docs_json\<close> counts over \<open>config.get("navigation", {})\<close>; \<open>.get\<close> exists on
  a dict only.
\<close>

definition analyze_total_endpoints :: "json \<Rightarrow> py_error + nat" where
  "analyze_total_endpoints config =
     (case config of
        JObj kvs \<Rightarrow>
          total_endpoints (case map_of kvs ''navigation'' of None \<Rightarrow> JObj [] | Some nav \<Rightarrow> nav)
      | _ \<Rightarrow> Inl AttributeError)"

text \<open>
  The total the specification describes: every group (a dict with a \<open>group\<close> field),
  at any nesting position, contributes the number of string entries of its own children
  list.
\<close>

definition own_leaves :: "(string \<times> json) list \<Rightarrow> nat" where
  "own_leaves kvs =
     (if map_of kvs ''group'' = None then 0
      else length (filter (\<lambda>page. case page of JStr s \<Rightarrow> True | _ \<Rightarrow> False) (pages_of kvs)))"

function spec_leaf_total :: "json \<Rightarrow> nat"
and spec_leaf_total_values :: "(string \<times> json) list \<Rightarrow> nat"
and spec_leaf_total_items :: "json list \<Rightarrow> nat" where
  "spec_leaf_total (JObj kvs) = own_leaves kvs + spec_leaf_total_values kvs"
| "spec_leaf_total (JArr xs) = spec_leaf_total_items xs"
| "spec_leaf_total JNull = 0"
| "spec_leaf_total (JBool b) = 0"
| "spec_leaf_total (JInt i) = 0"
| "spec_leaf_total (JStr s) = 0"
| "spec_leaf_total_values [] = 0"
| "spec_leaf_total_values (kv # kvs) = spec_leaf_total (snd kv) + spec_leaf_total_values kvs"
| "spec_leaf_total_items [] = 0"
| "spec_leaf_total_items (x # xs) = spec_leaf_total x + spec_leaf_total_items xs"
  by pat_completeness auto
termination
  by (relation "measure (\<lambda>x. case x of
          Inl obj \<Rightarrow> size obj
        | Inr (Inl kvs) \<Rightarrow> size_list (size_prod (\<lambda>_. 0) size) kvs
        | Inr (Inr items) \<Rightarrow> size_list size items)")
     auto

definition shared_name_nav :: json where
  "shared_name_nav =
     JObj [(''tabs'', JArr
       [JObj [(''tab'', JStr ''API reference''),
              (''groups'', JArr
                [JObj [(''group'', JStr ''Camera''),
                       (''pages'', JArr
                          [JObj [(''group'', JStr ''Get & Find''),
                                 (''pages'', JArr [JStr ''camera-get-a'', JStr ''camera-find-b''])]])],
                 JObj [(''group'', JStr ''Door''),
                       (''pages'', JArr
                          [JObj [(''group'', JStr ''Get & Find''),
                                 (''pages'', JArr [JStr ''door-get-c''])]])]])]])]"

section \<open>Icon update (improve-endpoint-navigation.py)\<close>

definition quote_char :: char where "quote_char = CHR 0x22"
definition backslash :: char where "backslash = CHR 0x5C"

text \<open>
  \<open>Path.read_text()\<close> opens the file in text mode: \<open>\r\n\<close> and a lone \<open>\r\<close> are read as
  \<open>\n\<close>.
\<close>

fun read_text :: "string \<Rightarrow> string" where
  "read_text [] = []"
| "read_text [c] = (if c = CHR 0x0D then [CHR 0x0A] else [c])"
| "read_text (c # d # cs) =
     (if c = CHR 0x0D then
        (if d = CHR 0x0A then CHR 0x0A # read_text cs else CHR 0x0A # read_text (d # cs))
      else c # read_text (d # cs))"

text \<open>
  A match of the pattern \<open>icon: "[^"]*"\<close> at the front of a text: the matched text and
  what follows it.
\<close>

definition icon_prefix :: string where
  "icon_prefix = ''icon: '' @ [quote_char]"

definition match_icon :: "string \<Rightarrow> (string \<times> string) option" where
  "match_icon s =
     (if take 7 s = icon_prefix then
        (let body = drop 7 s;
             v = takeWhile (\<lambda>c. c \<noteq> quote_char) body;
             r = dropWhile (\<lambda>c. c \<noteq> quote_char) body
         in if r = [] then None else Some (icon_prefix @ v @ [quote_char], tl r))
      else None)"

lemma match_icon_shorter: "match_icon s = Some (m, rest) \<Longrightarrow> length rest < length s"
proof -
  assume a: "match_icon s = Some (m, rest)"
  let ?body = "drop 7 s"
  from a have r: "dropWhile (\<lambda>c. c \<noteq> quote_char) ?body \<noteq> []"
    and rest: "rest = tl (dropWhile (\<lambda>c. c \<noteq> quote_char) ?body)"
    by (auto simp: match_icon_def Let_def split: if_splits)
  have "length (dropWhile (\<lambda>c. c \<noteq> quote_char) ?body) \<le> length ?body"
    by (rule length_dropWhile_le)
  with r rest show ?thesis by (cases "dropWhile (\<lambda>c. c \<noteq> quote_char) ?body") auto
qed

text \<open>A replacement template: literal characters and references to the whole match.\<close>

datatype piece = Lit char | Whole_match

fun expand_piece :: "string \<Rightarrow> piece \<Rightarrow> string" where
  "expand_piece m (Lit c) = [c]"
| "expand_piece m Whole_match = m"

definition expand_template :: "piece list \<Rightarrow> string \<Rightarrow> string" where
  "expand_template tpl m = concat (map (expand_piece m) tpl)"

text \<open>
  \<open>re.sub\<close> with this pattern: matches are looked for from left to right, each match is
  replaced by the expanded template, and the search goes on after the match.
\<close>

function re_sub_icon :: "piece list \<Rightarrow> string \<Rightarrow> string" where
  "re_sub_icon tpl s =
     (if s = [] then []
      else (case match_icon s of
              Some (m, rest) \<Rightarrow> expand_template tpl m @ re_sub_icon tpl rest
            | None \<Rightarrow> hd s # re_sub_icon tpl (tl s)))"
  by pat_completeness auto
termination
  by (relation "measure (\<lambda>(tpl, s). length s)") (auto simp: match_icon_shorter)

declare re_sub_icon.simps [simp del]

text \<open>
  The tokens of a replacement string, as \<open>re\<close>'s tokenizer reads them: a backslash and
  the character after it form one token; a backslash at the very end is an error.
\<close>

fun template_tokens :: "string \<Rightarrow> string list option" where
  "template_tokens [] = Some []"
| "template_tokens [c] = (if c = backslash then None else Some [[c]])"
| "template_tokens (c # d # cs) =
     (if c = backslash then map_option (\<lambda>ts. [c, d] # ts) (template_tokens cs)
      else map_option (\<lambda>ts. [c] # ts) (template_tokens (d # cs)))"

definition is_octdigit :: "string \<Rightarrow> bool" where
  "is_octdigit t = (case t of [c] \<Rightarrow> 48 \<le> (of_char c :: nat) \<and> (of_char c :: nat) \<le> 55 | _ \<Rightarrow> False)"

definition is_digit :: "string \<Rightarrow> bool" where
  "is_digit t = (case t of [c] \<Rightarrow> 48 \<le> (of_char c :: nat) \<and> (of_char c :: nat) \<le> 57 | _ \<Rightarrow> False)"

definition digit_value :: "string \<Rightarrow> nat" where
  "digit_value t = (case t of c # _ \<Rightarrow> of_char c - 48 | [] \<Rightarrow> 0)"

definition is_ascii_letter :: "char \<Rightarrow> bool" where
  "is_ascii_letter c =
     (let n = (of_char c :: nat) in (65 \<le> n \<and> n \<le> 90) \<or> (97 \<le> n \<and> n \<le> 122))"

text \<open>The table \<open>ESCAPES\<close> of \<open>re\<close>: \<open>\a \b \f \n \r \t \v \\\<close>.\<close>

definition escape_char :: "char \<Rightarrow> char option" where
  "escape_char c =
     (if c = CHR ''a'' then Some (CHR 0x07)
      else if c = CHR ''b'' then Some (CHR 0x08)
      else if c = CHR ''f'' then Some (CHR 0x0C)
      else if c = CHR ''n'' then Some (CHR 0x0A)
      else if c = CHR ''r'' then Some (CHR 0x0D)
      else if c = CHR ''t'' then Some (CHR 0x09)
      else if c = CHR ''v'' then Some (CHR 0x0B)
      else if c = backslash then Some backslash
      else None)"

text \<open>The name of a \<open>\g<name>\<close> reference: the tokens up to the token \<open>>\<close>.\<close>

fun take_name :: "string list \<Rightarrow> (string \<times> string list) option" where
  "take_name [] = None"
| "take_name (u # us) =
     (if u = ''>'' then Some ([], us)
      else map_option (\<lambda>(name, rest). (u @ name, rest)) (take_name us))"

text \<open>
  The pattern has no group of its own, so a reference is valid only when it names group
  0, the whole match: the name is not an identifier and \<open>int(name)\<close> is 0. \<open>int\<close> strips
  white space, takes one sign, and reads digits that single underscores may separate.
\<close>

definition is_space :: "char \<Rightarrow> bool" where
  "is_space c =
     (let n = (of_char c :: nat)
      in (9 \<le> n \<and> n \<le> 13) \<or> (28 \<le> n \<and> n \<le> 32) \<or> n = 133 \<or> n = 160)"

fun zeros_with_underscores :: "string \<Rightarrow> bool" where
  "zeros_with_underscores [] = False"
| "zeros_with_underscores [c] = (c = CHR ''0'')"
| "zeros_with_underscores (c # d # cs) =
     (c = CHR ''0'' \<and>
      (if d = CHR ''_'' then zeros_with_underscores cs else zeros_with_underscores (d # cs)))"

definition int_is_zero :: "string \<Rightarrow> bool" where
  "int_is_zero name =
     (let t = rev (dropWhile is_space (rev (dropWhile is_space name)));
          u = (case t of c # cs \<Rightarrow> if c = CHR ''+'' \<or> c = CHR ''-'' then cs else t | [] \<Rightarrow> [])
      in zeros_with_underscores u)"

lemma take_name_shorter: "take_name us = Some (name, rest) \<Longrightarrow> length rest < length us"
  by (induction us arbitrary: name) (auto split: if_splits)

text \<open>
  One turn of the loop of \<open>parse_template\<close>: the pieces the next token (with the tokens
  it draws in) stands for, and the tokens left; \<open>None\<close> when \<open>re\<close> raises an error.
\<close>

definition parse_step :: "string \<Rightarrow> string list \<Rightarrow> (piece list \<times> string list) option" where
  "parse_step t ts =
     (case t of
        [c] \<Rightarrow> Some ([Lit c], ts)
      | [b, c] \<Rightarrow>
          if c = CHR ''g'' then
            (case ts of
               [] \<Rightarrow> None
             | u # ts1 \<Rightarrow>
                 if u = ''<'' then
                   (case take_name ts1 of
                      None \<Rightarrow> None
                    | Some (name, ts2) \<Rightarrow>
                        if name \<noteq> [] \<and> int_is_zero name then Some ([Whole_match], ts2) else None)
                 else None)
          else if c = CHR ''0'' then
            (let octs = takeWhile is_octdigit (take 2 ts);
                 v = foldl (\<lambda>a d. 8 * a + digit_value d) 0 octs
             in Some ([Lit (char_of (v mod 256))], drop (length octs) ts))
          else if is_digit [c] then
            (case ts of
               d2 # d3 # ts2 \<Rightarrow>
                 if is_octdigit [c] \<and> is_octdigit d2 \<and> is_octdigit d3 then
                   (let v = 64 * digit_value [c] + 8 * digit_value d2 + digit_value d3
                    in if v > 255 then None else Some ([Lit (char_of v)], ts2))
                 else None
             | _ \<Rightarrow> None)
          else
            (case escape_char c of
               Some e \<Rightarrow> Some ([Lit e], ts)
             | None \<Rightarrow> if is_ascii_letter c then None else Some ([Lit b, Lit c], ts))
      | _ \<Rightarrow> None)"

lemma parse_step_shorter:
  "parse_step t ts = Some (ps, rest) \<Longrightarrow> length rest \<le> length ts"
  by (auto simp: parse_step_def Let_def split: list.splits if_splits option.splits
           dest: take_name_shorter)

function parse_tokens :: "string list \<Rightarrow> piece list option" where
  "parse_tokens [] = Some []"
| "parse_tokens (t # ts) =
     (case parse_step t ts of
        None \<Rightarrow> None
      | Some (ps, rest) \<Rightarrow> map_option (\<lambda>more. ps @ more) (parse_tokens rest))"
  by pat_completeness auto
termination
  by (relation "measure length") (auto dest: parse_step_shorter)

definition parse_template :: "string \<Rightarrow> piece list option" where
  "parse_template source =
     (case template_tokens source of None \<Rightarrow> None | Some toks \<Rightarrow> parse_tokens toks)"

text \<open>
  \<^verbatim>\<open>
  def update_endpoint_icon(file_path, new_icon):
      try:
          content = file_path.read_text()
          updated_content = re.sub(r'icon: "[^"]*"', f'icon: "{new_icon}"', content)
          if updated_content != content:
              file_path.write_text(updated_content)
              return True
          return False
      except Exception as e:
          print(f"Error updating {file_path}: {e}")
          return False
  \<close>
  The file is \<open>None\<close> when it does not exist. The result is the file afterwards and the
  value returned. \<open>re.sub\<close> reads its replacement as a template before it looks for a
  match, and raises an error on a template it cannot read.
\<close>

definition icon_template :: "string \<Rightarrow> string" where
  "icon_template new_icon = icon_prefix @ new_icon @ [quote_char]"

definition update_endpoint_icon :: "string option \<Rightarrow> string \<Rightarrow> string option \<times> bool" where
  "update_endpoint_icon file new_icon =
     (case file of
        None \<Rightarrow> (None, False)
      | Some text \<Rightarrow>
         (let content = read_text text
          in case parse_template (icon_template new_icon) of
               None \<Rightarrow> (file, False)
             | Some tpl \<Rightarrow>
                 (let updated_content = re_sub_icon tpl content
                  in if updated_content \<noteq> content then (Some updated_content, True)
                     else (file, False))))"

subsection \<open>The text of a file cut at its matches\<close>

text \<open>
  A text cut at matches of the pattern: the piece before the first match, then each match
  \<open>icon: "v"\<close> with the piece that follows it. \<open>unsplit\<close> puts the text together again;
  \<open>resplit t\<close> puts it together with \<open>t\<close> in the place of every match.
\<close>

fun unsplit :: "string \<Rightarrow> (string \<times> string) list \<Rightarrow> string" where
  "unsplit p0 [] = p0"
| "unsplit p0 ((v, p) # segs) = p0 @ icon_template v @ unsplit p segs"

fun resplit :: "string \<Rightarrow> string \<Rightarrow> (string \<times> string) list \<Rightarrow> string" where
  "resplit t p0 [] = p0"
| "resplit t p0 ((v, p) # segs) = p0 @ t @ resplit t p segs"

text \<open>
  No match of the pattern starts at a position inside the piece \<open>p\<close>, when the text
  \<open>follow\<close> comes after it.
\<close>

definition no_match_in :: "string \<Rightarrow> string \<Rightarrow> bool" where
  "no_match_in p follow = list_all (\<lambda>i. match_icon (drop i p @ follow) = None) [0..<length p]"

text \<open>
  The cut holds every match, taken from left to right without overlap: no match starts
  inside a piece between two of them (nor before the first or after the last), and the
  quoted value of each match holds no quote, so the match ends at its first closing quote.
\<close>

fun leftmost_cut :: "string \<Rightarrow> (string \<times> string) list \<Rightarrow> bool" where
  "leftmost_cut p0 [] = no_match_in p0 []"
| "leftmost_cut p0 ((v, p) # segs) =
     (no_match_in p0 (icon_template v @ unsplit p segs) \<and> quote_char \<notin> set v \<and>
      leftmost_cut p segs)"

text \<open>
  A replacement in which every backslash stands before a character that is not an ASCII
  letter, not a digit and not a backslash (a backslash at the very end is not allowed).
  An icon without a backslash is of this kind, and so is an icon that ends with a
  backslash, since in the replacement \<open>icon: "<icon>"\<close> the closing quote follows it.
\<close>

fun plain_escapes :: "string \<Rightarrow> bool" where
  "plain_escapes [] = True"
| "plain_escapes [c] = (c \<noteq> backslash)"
| "plain_escapes (c # d # cs) =
     (if c = backslash
      then \<not> is_ascii_letter d \<and> \<not> is_digit [d] \<and> d \<noteq> backslash \<and> plain_escapes cs
      else plain_escapes (d # cs))"

subsection \<open>Sample pages\<close>

text \<open>
  A page with two matches of the pattern, its cut, and the page after both icons are set
  to \<open>eye\<close>.
\<close>

definition two_icons_mdx :: string where
  "two_icons_mdx =
     ''---'' @ [CHR 0x0A] @ icon_template ''camera'' @ [CHR 0x0A] @ ''see '' @ icon_template ''door''
     @ '' here''"

definition two_icons_front :: string where
  "two_icons_front = ''---'' @ [CHR 0x0A]"

definition two_icons_segs :: "(string \<times> string) list" where
  "two_icons_segs = [(''camera'', [CHR 0x0A] @ ''see ''), (''door'', '' here'')]"

definition two_icons_mdx_eye :: string where
  "two_icons_mdx_eye =
     ''---'' @ [CHR 0x0A] @ icon_template ''eye'' @ [CHR 0x0A] @ ''see '' @ icon_template ''eye''
     @ '' here''"

text \<open>A page with Windows line endings, and the same page with Unix line endings.\<close>

definition crlf_mdx :: "string \<Rightarrow> string" where
  "crlf_mdx icon = ''title: x'' @ [CHR 0x0D, CHR 0x0A] @ icon_template icon @ [CHR 0x0D, CHR 0x0A]"

definition lf_mdx :: "string \<Rightarrow> string" where
  "lf_mdx icon = ''title: x'' @ [CHR 0x0A] @ icon_template icon @ [CHR 0x0A]"

section \<open>JSON text (json.load and json.dump)\<close>

text \<open>
  What reading a JSON text gives: a value, a \<open>JSONDecodeError\<close>, or a text this model
  does not read although Python does (a number with a fraction or an exponent, \<open>NaN\<close>
  and the infinities, a \<open>\u\<close> escape, a character outside ASCII, an integer of more than
  4300 digits, nesting deeper than 100).
\<close>

datatype 'a parsed = Parsed 'a | Invalid | Unmodelled

definition is_json_ws :: "char \<Rightarrow> bool" where
  "is_json_ws c = (c = CHR '' '' \<or> c = CHR 0x09 \<or> c = CHR 0x0A \<or> c = CHR 0x0D)"

definition skip_ws :: "string \<Rightarrow> string" where
  "skip_ws cs = dropWhile is_json_ws cs"

definition starts_with :: "string \<Rightarrow> string \<Rightarrow> bool" where
  "starts_with word cs = (take (length word) cs = word)"

text \<open>The escapes of a JSON string other than \<open>\u\<close>.\<close>

definition unescape :: "char \<Rightarrow> char option" where
  "unescape e =
     (if e = quote_char then Some quote_char
      else if e = backslash then Some backslash
      else if e = CHR ''/'' then Some (CHR ''/'')
      else if e = CHR ''b'' then Some (CHR 0x08)
      else if e = CHR ''f'' then Some (CHR 0x0C)
      else if e = CHR ''n'' then Some (CHR 0x0A)
      else if e = CHR ''r'' then Some (CHR 0x0D)
      else if e = CHR ''t'' then Some (CHR 0x09)
      else None)"

definition push_char :: "char \<Rightarrow> (string \<times> string) parsed \<Rightarrow> (string \<times> string) parsed" where
  "push_char c r = (case r of Parsed (s, rest) \<Rightarrow> Parsed (c # s, rest) | other \<Rightarrow> other)"

text \<open>The string that starts after an opening quote, and the text after its closing quote.\<close>

fun scan_string :: "string \<Rightarrow> (string \<times> string) parsed" where
  "scan_string [] = Invalid"
| "scan_string [c] = (if c = quote_char then Parsed ([], []) else Invalid)"
| "scan_string (c # e # cs) =
     (if c = quote_char then Parsed ([], e # cs)
      else if c = backslash then
        (if e = CHR ''u'' then Unmodelled
         else (case unescape e of
                 None \<Rightarrow> Invalid
               | Some ch \<Rightarrow> push_char ch (scan_string cs)))
      else if (of_char c :: nat) < 32 then Invalid
      else if (of_char c :: nat) \<ge> 128 then Unmodelled
      else push_char c (scan_string (e # cs)))"

definition is_digit_char :: "char \<Rightarrow> bool" where
  "is_digit_char c = (48 \<le> (of_char c :: nat) \<and> (of_char c :: nat) \<le> 57)"

definition digits_value :: "string \<Rightarrow> nat" where
  "digits_value ds = foldl (\<lambda>a c. 10 * a + ((of_char c :: nat) - 48)) 0 ds"

text \<open>
  A number, as the regular expression \<open>(-?(?:0|[1-9]\d*))(\.\d+)?([eE][-+]?\d+)?\<close> of
  the decoder matches it: \<open>None\<close> when there is no match.
\<close>

definition scan_number :: "string \<Rightarrow> (json \<times> string) parsed option" where
  "scan_number cs =
     (let neg = starts_with ''-'' cs;
          body = (if neg then drop 1 cs else cs)
      in case body of
           [] \<Rightarrow> None
         | d # ds \<Rightarrow>
            if \<not> is_digit_char d then None
            else
              (let digits = (if d = CHR ''0'' then [d] else takeWhile is_digit_char body);
                   rest = drop (length digits) body;
                   frac = (case rest of
                             p # q # _ \<Rightarrow> p = CHR ''.'' \<and> is_digit_char q
                           | _ \<Rightarrow> False);
                   after_e = (case rest of
                                p # qs \<Rightarrow>
                                  if p = CHR ''e'' \<or> p = CHR ''E'' then
                                    Some (case qs of
                                            s # ts \<Rightarrow> if s = CHR ''+'' \<or> s = CHR ''-'' then ts else qs
                                          | [] \<Rightarrow> [])
                                  else None
                              | [] \<Rightarrow> None);
                   expo = (case after_e of
                             Some (q # _) \<Rightarrow> is_digit_char q
                           | _ \<Rightarrow> False)
               in if frac \<or> expo \<or> length digits > 4300 then Some Unmodelled
                  else Some (Parsed (JInt ((if neg then - 1 else 1) * int (digits_value digits)),
                                     rest))))"

text \<open>\<open>dict(pairs)\<close>: a key that comes again keeps its place and takes the later value.\<close>

definition dict_of_pairs :: "(string \<times> json) list \<Rightarrow> (string \<times> json) list" where
  "dict_of_pairs pairs = foldl (\<lambda>d kv. dict_set d (fst kv) (snd kv)) [] pairs"

text \<open>
  The decoder, by recursive descent. \<open>fuel\<close> bounds the number of nested calls (a text
  of \<open>n\<close> characters needs fewer than \<open>2 * n + 2\<close>) and \<open>depth\<close> the nesting that is
  read; running out of either gives \<open>Unmodelled\<close>. \<open>parse_members\<close> starts after the
  opening quote of a key and \<open>parse_elements\<close> at the first character of an element.
\<close>

fun parse_value :: "nat \<Rightarrow> nat \<Rightarrow> string \<Rightarrow> (json \<times> string) parsed"
and parse_members ::
  "nat \<Rightarrow> nat \<Rightarrow> string \<Rightarrow> (string \<times> json) list \<Rightarrow> (json \<times> string) parsed"
and parse_elements :: "nat \<Rightarrow> nat \<Rightarrow> string \<Rightarrow> json list \<Rightarrow> (json \<times> string) parsed"
where
  "parse_value 0 depth cs = Unmodelled"
| "parse_value (Suc fuel) depth cs =
     (case cs of
        [] \<Rightarrow> Invalid
      | c # rest \<Rightarrow>
          if c = quote_char then
            (case scan_string rest of
               Parsed (s, r) \<Rightarrow> Parsed (JStr s, r)
             | Invalid \<Rightarrow> Invalid
             | Unmodelled \<Rightarrow> Unmodelled)
          else if c = CHR ''{'' then
            (case depth of
               0 \<Rightarrow> Unmodelled
             | Suc depth' \<Rightarrow>
                (case skip_ws rest of
                   [] \<Rightarrow> Invalid
                 | k # r \<Rightarrow>
                     if k = CHR ''}'' then Parsed (JObj [], r)
                     else if k = quote_char then parse_members fuel depth' r []
                     else Invalid))
          else if c = CHR ''['' then
            (case depth of
               0 \<Rightarrow> Unmodelled
             | Suc depth' \<Rightarrow>
                (case skip_ws rest of
                   [] \<Rightarrow> parse_elements fuel depth' [] []
                 | k # r \<Rightarrow>
                     if k = CHR '']'' then Parsed (JArr [], r)
                     else parse_elements fuel depth' (k # r) []))
          else if starts_with ''null'' cs then Parsed (JNull, drop 4 cs)
          else if starts_with ''true'' cs then Parsed (JBool True, drop 4 cs)
          else if starts_with ''false'' cs then Parsed (JBool False, drop 5 cs)
          else
            (case scan_number cs of
               Some r \<Rightarrow> r
             | None \<Rightarrow>
                 if starts_with ''NaN'' cs \<or> starts_with ''Infinity'' cs
                    \<or> starts_with ''-Infinity'' cs
                 then Unmodelled else Invalid))"
| "parse_members 0 depth cs pairs = Unmodelled"
| "parse_members (Suc fuel) depth cs pairs =
     (case scan_string cs of
        Invalid \<Rightarrow> Invalid
      | Unmodelled \<Rightarrow> Unmodelled
      | Parsed (key, r0) \<Rightarrow>
         (case skip_ws r0 of
            [] \<Rightarrow> Invalid
          | colon # r1 \<Rightarrow>
             if colon \<noteq> CHR '':'' then Invalid
             else
               (case parse_value fuel depth (skip_ws r1) of
                  Invalid \<Rightarrow> Invalid
                | Unmodelled \<Rightarrow> Unmodelled
                | Parsed (v, r2) \<Rightarrow>
                   (case skip_ws r2 of
                      [] \<Rightarrow> Invalid
                    | sep # r3 \<Rightarrow>
                       if sep = CHR ''}'' then Parsed (JObj (dict_of_pairs (pairs @ [(key, v)])), r3)
                       else if sep = CHR '','' then
                         (case skip_ws r3 of
                            [] \<Rightarrow> Invalid
                          | q # r4 \<Rightarrow>
                              if q = quote_char
                              then parse_members fuel depth r4 (pairs @ [(key, v)])
                              else Invalid)
                       else Invalid))))"
| "parse_elements 0 depth cs acc = Unmodelled"
| "parse_elements (Suc fuel) depth cs acc =
     (case parse_value fuel depth cs of
        Invalid \<Rightarrow> Invalid
      | Unmodelled \<Rightarrow> Unmodelled
      | Parsed (v, r) \<Rightarrow>
         (case skip_ws r of
            [] \<Rightarrow> Invalid
          | sep # r1 \<Rightarrow>
             if sep = CHR '']'' then Parsed (JArr (acc @ [v]), r1)
             else if sep = CHR '','' then parse_elements fuel depth (skip_ws r1) (acc @ [v])
             else Invalid))"

text \<open>
  \<open>json.loads\<close>: white space, one value, white space, and nothing more ("Extra data"
  otherwise).
\<close>

definition json_loads :: "string \<Rightarrow> json parsed" where
  "json_loads text =
     (case parse_value (2 * length text + 2) 100 (skip_ws text) of
        Invalid \<Rightarrow> Invalid
      | Unmodelled \<Rightarrow> Unmodelled
      | Parsed (v, rest) \<Rightarrow> if skip_ws rest = [] then Parsed v else Invalid)"

text \<open>\<open>json.dump(obj, f, indent=2)\<close>, with the default \<open>ensure_ascii=True\<close>.\<close>

function decimal :: "nat \<Rightarrow> string" where
  "decimal n = (if n < 10 then [char_of (48 + n)] else decimal (n div 10) @ [char_of (48 + n mod 10)])"
  by pat_completeness auto
termination
  by (relation "measure id") auto

declare decimal.simps [simp del]

definition hex_digit :: "nat \<Rightarrow> char" where
  "hex_digit n = (if n < 10 then char_of (48 + n) else char_of (87 + n))"

definition escape_json_char :: "char \<Rightarrow> string" where
  "escape_json_char c =
     (let n = (of_char c :: nat)
      in if c = quote_char then [backslash, quote_char]
         else if c = backslash then [backslash, backslash]
         else if c = CHR 0x0A then [backslash, CHR ''n'']
         else if c = CHR 0x0D then [backslash, CHR ''r'']
         else if c = CHR 0x09 then [backslash, CHR ''t'']
         else if c = CHR 0x08 then [backslash, CHR ''b'']
         else if c = CHR 0x0C then [backslash, CHR ''f'']
         else if 32 \<le> n \<and> n \<le> 126 then [c]
         else [backslash, CHR ''u'', CHR ''0'', CHR ''0'', hex_digit (n div 16), hex_digit (n mod 16)])"

definition dump_string :: "string \<Rightarrow> string" where
  "dump_string s = [quote_char] @ concat (map escape_json_char s) @ [quote_char]"

definition newline_indent :: "nat \<Rightarrow> string" where
  "newline_indent level = CHR 0x0A # replicate (2 * level) (CHR '' '')"

fun join_with :: "string \<Rightarrow> string list \<Rightarrow> string" where
  "join_with sep [] = []"
| "join_with sep [x] = x"
| "join_with sep (x # y # ys) = x @ sep @ join_with sep (y # ys)"

function dump_value :: "nat \<Rightarrow> json \<Rightarrow> string"
and dump_items :: "nat \<Rightarrow> json list \<Rightarrow> string list"
and dump_members :: "nat \<Rightarrow> (string \<times> json) list \<Rightarrow> string list" where
  "dump_value level JNull = ''null''"
| "dump_value level (JBool b) = (if b then ''true'' else ''false'')"
| "dump_value level (JInt i) = (if i < 0 then ''-'' else []) @ decimal (nat \<bar>i\<bar>)"
| "dump_value level (JStr s) = dump_string s"
| "dump_value level (JArr xs) =
     (if xs = [] then ''[]''
      else ''['' @ newline_indent (Suc level)
           @ join_with ('','' @ newline_indent (Suc level)) (dump_items (Suc level) xs)
           @ newline_indent level @ '']'')"
| "dump_value level (JObj kvs) =
     (if kvs = [] then ''{}''
      else ''{'' @ newline_indent (Suc level)
           @ join_with ('','' @ newline_indent (Suc level)) (dump_members (Suc level) kvs)
           @ newline_indent level @ ''}'')"
| "dump_items level [] = []"
| "dump_items level (x # xs) = dump_value level x # dump_items level xs"
| "dump_members level [] = []"
| "dump_members level (kv # kvs) =
     (dump_string (fst kv) @ '': '' @ dump_value level (snd kv)) # dump_members level kvs"
  by pat_completeness auto
termination
  by (relation "measure (\<lambda>x. case x of
          Inl (level, v) \<Rightarrow> size v
        | Inr (Inl (level, xs)) \<Rightarrow> size_list size xs
        | Inr (Inr (level, kvs)) \<Rightarrow> size_list (size_prod (\<lambda>_. 0) size) kvs)")
     auto

definition json_dumps :: "json \<Rightarrow> string" where
  "json_dumps v = dump_value 0 v"

section \<open>The navigation scripts on their files\<close>

text \<open>
  The files the navigation scripts touch: \<open>docs/docs.json\<close>, \<open>docs/docs.json.backup\<close>
  and \<open>docs/api-reference/endpoint/_navigation.json\<close>; \<open>None\<close> is a file that does not
  exist.
\<close>

record files =
  docs_json :: "string option"
  backup_json :: "string option"
  nav_json :: "string option"

text \<open>
  How a run ends: the document was written back (\<open>Written\<close>; the summary the script
  prints after that is not modelled), the script printed
  \<open>Could not find 'API reference' tab in docs.json\<close> and returned, an exception left the
  script, or the run is outside what the decoder of this model reads.
\<close>

datatype outcome = Written | Tab_not_found | Raised py_error | Outside_model

text \<open>
  \<open>with open(path, 'r') as f: data = json.load(f)\<close>. A text with a character outside
  ASCII is left to \<open>Outside_model\<close>.
\<close>

definition load_json :: "string option \<Rightarrow> outcome + json" where
  "load_json file =
     (case file of
        None \<Rightarrow> Inl (Raised FileNotFoundError)
      | Some text \<Rightarrow>
          if list_ex (\<lambda>c. 128 \<le> (of_char c :: nat)) text then Inl Outside_model
          else (case json_loads (read_text text) of
                  Parsed v \<Rightarrow> Inr v
                | Invalid \<Rightarrow> Inl (Raised JSONDecodeError)
                | Unmodelled \<Rightarrow> Inl Outside_model))"

text \<open>
  What follows the backup in each script: the merge on the parsed document, and the
  write of \<open>docs.json\<close> when the merge gives a document.
\<close>

definition finish :: "files \<Rightarrow> py_error + merged \<Rightarrow> files \<times> outcome" where
  "finish fs result =
     (case result of
        Inl e \<Rightarrow> (fs, Raised e)
      | Inr NoTab \<Rightarrow> (fs, Tab_not_found)
      | Inr (Merged d) \<Rightarrow> (fs\<lparr>docs_json := Some (json_dumps d)\<rparr>, Written))"

text \<open>
  \<^verbatim>\<open>
  with open(DOCS_JSON, 'r') as f:
      docs_data = json.load(f)
  with open(BACKUP_JSON, 'w') as f:
      json.dump(docs_data, f, indent=2)
  \<close>
  opens each of the three scripts. \<open>main\<close> of \<open>update-docs-navigation.py\<close> then loads
  \<open>_navigation.json\<close>.
\<close>

definition update_docs_navigation :: "files \<Rightarrow> files \<times> outcome" where
  "update_docs_navigation fs =
     (case load_json (docs_json fs) of
        Inl out \<Rightarrow> (fs, out)
      | Inr docs_data \<Rightarrow>
         (let fs1 = fs\<lparr>backup_json := Some (json_dumps docs_data)\<rparr>
          in case load_json (nav_json fs1) of
               Inl out \<Rightarrow> (fs1, out)
             | Inr endpoint_nav \<Rightarrow> finish fs1 (update_merge docs_data endpoint_nav)))"

definition create_accordion_navigation :: "files \<Rightarrow> files \<times> outcome" where
  "create_accordion_navigation fs =
     (case load_json (docs_json fs) of
        Inl out \<Rightarrow> (fs, out)
      | Inr docs_data \<Rightarrow>
         (let fs1 = fs\<lparr>backup_json := Some (json_dumps docs_data)\<rparr>
          in finish fs1 (accordion_merge docs_data)))"

definition organize_with_service_groups :: "files \<Rightarrow> files \<times> outcome" where
  "organize_with_service_groups fs =
     (case load_json (docs_json fs) of
        Inl out \<Rightarrow> (fs, out)
      | Inr docs_data \<Rightarrow>
         (let fs1 = fs\<lparr>backup_json := Some (json_dumps docs_data)\<rparr>
          in finish fs1 (service_merge docs_data)))"

text \<open>
  A document on one line, the same document as \<open>json.dump\<close> writes it, and a document
  without the tab.
\<close>

definition quoted :: "string \<Rightarrow> string" where
  "quoted s = [quote_char] @ s @ [quote_char]"

definition compact_docs_text :: string where
  "compact_docs_text = ''{'' @ quoted ''navigation'' @ '': {'' @ quoted ''tabs'' @ '': []}}''"

definition dumped_docs_text :: string where
  "dumped_docs_text =
     ''{'' @ [CHR 0x0A] @ ''  '' @ quoted ''navigation'' @ '': {'' @ [CHR 0x0A]
     @ ''    '' @ quoted ''tabs'' @ '': []'' @ [CHR 0x0A] @ ''  }'' @ [CHR 0x0A] @ ''}''"

definition guides_docs_text :: string where
  "guides_docs_text =
     ''{'' @ quoted ''navigation'' @ '': {'' @ quoted ''tabs'' @ '': [{'' @ quoted ''tab'' @ '': ''
     @ quoted ''Guides'' @ '', '' @ quoted ''groups'' @ '': []}]}}''"

definition sample_files :: "string \<Rightarrow> files" where
  "sample_files text = \<lparr>docs_json = Some text, backup_json = None, nav_json = Some ''[]''\<rparr>"

definition compact_docs :: json where
  "compact_docs = JObj [(''navigation'', JObj [(''tabs'', JArr [])])]"

definition guides_tab :: json where
  "guides_tab = JObj [(''tab'', JStr ''Guides''), (''groups'', JArr [])]"

definition guides_docs :: json where
  "guides_docs = JObj [(''navigation'', JObj [(''tabs'', JArr [guides_tab])])]"

section \<open>Properties of the emitter\<close>

lemma str_replace_Nil: "old \<noteq> [] \<Longrightarrow> str_replace old new [] = []"
  by (simp add: str_replace.simps)

lemma str_replace_hit:
  "old \<noteq> [] \<Longrightarrow> s \<noteq> [] \<Longrightarrow> take (length old) s = old \<Longrightarrow>
   str_replace old new s = new @ str_replace old new (drop (length old) s)"
  by (subst str_replace.simps) simp

lemma str_replace_miss:
  "old \<noteq> [] \<Longrightarrow> take (length old) (c # cs) \<noteq> old \<Longrightarrow>
   str_replace old new (c # cs) = c # str_replace old new cs"
  by (subst str_replace.simps) simp

text \<open>
  Claim C8, at the path of the specification's example: \<open>/api/camera/getCameraList\<close>
  yields \<open>camera-getcameralist\<close>, where the code and the specification's wording agree.
\<close>

lemma sanitize_filename_example:
  "sanitize_filename ''/api/camera/getCameraList'' = ''camera-getcameralist''"
  by code_simp

text \<open>
  Claim C8: the identifier derivation strips the fixed prefix \<open>/api/\<close>. The code calls
  \<open>str.replace\<close>, which removes \<open>/api/\<close> wherever it occurs, although its own comment
  reads "Remove /api/ prefix": at the path \<open>/api/foo/api/bar\<close> the code yields \<open>foobar\<close>,
  where stripping the prefix yields \<open>foo-api-bar\<close>.
\<close>

theorem sanitize_filename_inner_api:
  "sanitize_filename ''/api/foo/api/bar'' = ''foobar'' \<and>
   spec_identifier ''/api/foo/api/bar'' = ''foo-api-bar''"
  by code_simp

text \<open>
  Claim C9: a description longer than 160 characters is replaced by its first 157
  characters followed by the three-character marker \<open>...\<close>, 160 characters in all; a
  description of at most 160 characters is left as it is.
\<close>

theorem mdx_description_truncation:
  fixes path summary description :: string
  defines "desc \<equiv> str_or description (str_or summary (''API endpoint for '' @ path))"
  shows "(length desc > 160 \<longrightarrow>
            mdx_description path summary description = take 157 desc @ ''...'' \<and>
            length (mdx_description path summary description) = 160) \<and>
         (length desc \<le> 160 \<longrightarrow> mdx_description path summary description = desc)"
  by (simp add: mdx_description_def truncate_desc_def desc_def)

theorem mdx_description_truncation_witness:
  "mdx_description ''/api/x'' '''' (replicate 200 CHR ''a'') = replicate 157 CHR ''a'' @ ''...'' \<and>
   length (mdx_description ''/api/x'' '''' (replicate 200 CHR ''a'')) = 160 \<and>
   mdx_description ''/api/x'' '''' (replicate 160 CHR ''b'') = replicate 160 CHR ''b''"
  using mdx_description_truncation [of "replicate 200 CHR ''a''" "''''" "''/api/x''"]
        mdx_description_truncation [of "replicate 160 CHR ''b''" "''''" "''/api/x''"]
  by (simp add: str_or_def)

section \<open>Dictionaries\<close>

lemma dict_append_absent: "k \<notin> fst ` set d \<Longrightarrow> dict_append d k v = d"
  by (induction d) auto

lemma dict_append_distinct:
  "distinct (map fst d) \<Longrightarrow>
   dict_append d k v = map (\<lambda>kv. if fst kv = k then (fst kv, snd kv @ [v]) else kv) d"
proof (induction d)
  case Nil
  then show ?case by simp
next
  case (Cons a d)
  obtain k' vs where a: "a = (k', vs)" by (cases a)
  show ?case
  proof (cases "k' = k")
    case True
    with Cons.prems a have "k \<notin> fst ` set d" by auto
    then have "map (\<lambda>kv. if fst kv = k then (fst kv, snd kv @ [v]) else kv) d = d"
      by (intro map_idI) auto
    with True a show ?thesis by simp
  next
    case False
    with Cons a show ?thesis by simp
  qed
qed

lemma fst_dict_append [simp]: "map fst (dict_append d k v) = map fst d"
  by (induction d) auto

lemma map_of_dict_set: "map_of (dict_set d k v) k' = (if k' = k then Some v else map_of d k')"
  by (induction d) auto

lemma map_of_dict_append:
  "map_of (dict_append d k v) k' =
     (if k' = k then map_option (\<lambda>vs. vs @ [v]) (map_of d k) else map_of d k')"
  by (induction d) auto

section \<open>Stable partitions\<close>

lemma sum_list_none:
  "k \<notin> set ks \<Longrightarrow> (\<Sum>k'\<leftarrow>ks. (if k = k' then {#x#} else {#})) = ({#} :: 'a multiset)"
  by (induction ks) auto

lemma sum_list_single:
  "distinct ks \<Longrightarrow> k \<in> set ks \<Longrightarrow>
   (\<Sum>k'\<leftarrow>ks. (if k = k' then {#x#} else {#})) = {#x#}"
  by (induction ks) (auto simp: sum_list_none)

lemma mset_partition:
  "distinct ks \<Longrightarrow> \<forall>x\<in>set xs. f x \<in> set ks \<Longrightarrow>
   mset (concat (map (\<lambda>k. filter (\<lambda>x. f x = k) xs) ks)) = mset xs"
proof (induction xs)
  case Nil
  then show ?case by (induction ks) auto
next
  case (Cons x xs)
  have "mset (concat (map (\<lambda>k. filter (\<lambda>y. f y = k) (x # xs)) ks)) =
        (\<Sum>k\<leftarrow>ks. (if f x = k then {#x#} else {#}) + mset (filter (\<lambda>y. f y = k) xs))"
    by (simp add: mset_concat comp_def) (rule arg_cong[where f=sum_list], auto)
  also have "\<dots> = (\<Sum>k\<leftarrow>ks. (if f x = k then {#x#} else {#}))
                    + (\<Sum>k\<leftarrow>ks. mset (filter (\<lambda>y. f y = k) xs))"
    by (simp add: sum_list_addf)
  also have "\<dots> = {#x#} + mset xs"
    using Cons by (simp add: sum_list_single mset_concat comp_def)
  finally show ?case by simp
qed

lemma buckets_mset:
  assumes "distinct keys" and "\<forall>x\<in>set xs. f x \<in> set keys"
  shows "mset (concat (map snd (buckets keys f xs))) = mset xs"
proof -
  have "concat (map snd (buckets keys f xs)) = concat (map (\<lambda>k. filter (\<lambda>x. f x = k) xs) keys)"
    unfolding buckets_def by (induction keys) auto
  with mset_partition [OF assms] show ?thesis by simp
qed

lemma buckets_subseq: "kv \<in> set (buckets keys f xs) \<Longrightarrow> subseq (snd kv) xs"
  by (auto simp: buckets_def)


lemma buckets_keys: "map fst (buckets keys f xs) = filter (\<lambda>k. \<exists>x\<in>set xs. f x = k) keys"
  unfolding buckets_def by (induction keys) (auto simp: filter_empty_conv)

lemma group_pages_sub_group [simp]: "group_pages (sub_group kv) = snd kv"
  by (simp add: group_pages_def sub_group_def)

section \<open>The accordion classifier is a stable partition\<close>

lemma categorize_loop_filter:
  "distinct (map fst cats) \<Longrightarrow> categorize_loop pages cats = Inr cats' \<Longrightarrow>
   cats' = map (\<lambda>kv. (fst kv, snd kv @ filter (\<lambda>p. page_category p = fst kv) pages)) cats"
proof (induction pages arbitrary: cats)
  case Nil
  then show ?case by simp
next
  case (Cons page pages)
  from Cons.prems(2) obtain p where p: "page = JStr p"
    by (cases page) auto
  let ?cats1 = "dict_append cats (action_category p) page"
  from Cons.prems(2) p have loop: "categorize_loop pages ?cats1 = Inr cats'" by simp
  have d1: "distinct (map fst ?cats1)" using Cons.prems(1) by simp
  have "cats' = map (\<lambda>kv. (fst kv, snd kv @ filter (\<lambda>p. page_category p = fst kv) pages)) ?cats1"
    by (rule Cons.IH [OF d1 loop])
  also have "?cats1 =
      map (\<lambda>kv. if fst kv = action_category p then (fst kv, snd kv @ [page]) else kv) cats"
    by (rule dict_append_distinct [OF Cons.prems(1)])
  finally show ?case
    by (auto simp: p page_category_def)
qed

lemma categorize_loop_total:
  "\<exists>cats'. categorize_loop (map JStr pages) cats = Inr cats'"
  by (induction pages arbitrary: cats) auto

lemma categorize_loop_strings:
  "categorize_loop pages cats = Inr cats' \<Longrightarrow> \<exists>ps. pages = map JStr ps"
proof (induction pages arbitrary: cats)
  case Nil
  then show ?case by simp
next
  case (Cons page pages)
  from Cons.prems obtain p where p: "page = JStr p"
    by (cases page) auto
  with Cons.prems Cons.IH obtain ps where "pages = map JStr ps" by auto
  with p have "page # pages = map JStr (p # ps)" by simp
  then show ?case by (rule exI)
qed

lemma action_category_range: "action_category p \<in> set action_names"
  by (simp add: action_category_def action_names_def empty_categories_def Let_def)

lemma page_category_range: "page_category (JStr p) \<in> set action_names"
  by (simp add: page_category_def action_category_range)

lemma action_names_distinct: "distinct action_names"
  by (simp add: action_names_def empty_categories_def)

lemma categorize_endpoints_buckets:
  assumes "categorize_endpoints pages = Inr cats"
  shows "cats = buckets action_names page_category pages"
proof -
  from assms obtain cs where cs: "categorize_loop pages empty_categories = Inr cs"
    and cats: "cats = filter (\<lambda>kv. snd kv \<noteq> []) cs"
    by (auto simp: categorize_endpoints_def split: sum.splits)
  have "distinct (map fst empty_categories)" by (simp add: empty_categories_def)
  from categorize_loop_filter [OF this cs] cats show ?thesis
    by (simp add: buckets_def action_names_def empty_categories_def)
qed

lemma categorize_endpoints_total: "\<exists>cats. categorize_endpoints (map JStr pages) = Inr cats"
  using categorize_loop_total [of pages empty_categories]
  by (auto simp: categorize_endpoints_def)

section \<open>The service-level builder is a stable partition\<close>

lemma map_of_structure_append:
  "map_of (structure_append ss s g) s' =
     (if s' = s then Some ((case map_of ss s of None \<Rightarrow> [] | Some vs \<Rightarrow> vs) @ [g])
      else map_of ss s')"
  by (auto simp: structure_append_def map_of_dict_append map_of_dict_set split: option.splits)

lemma organize_loop_result:
  "organize_loop gs ss un = Inr (ss', un') \<Longrightarrow>
   un' = un @ filter (\<lambda>g. group_service g = ''Other Services'') gs \<and>
   (\<forall>s. map_of ss' s =
      (if s = ''Other Services'' \<or> filter (\<lambda>g. group_service g = s) gs = [] then map_of ss s
       else Some ((case map_of ss s of None \<Rightarrow> [] | Some vs \<Rightarrow> vs)
                    @ filter (\<lambda>g. group_service g = s) gs)))"
proof (induction gs arbitrary: ss un)
  case Nil
  then show ?case by simp
next
  case (Cons g gs)
  from Cons.prems obtain name where name: "py_getitem g ''group'' = Inr name"
    by (cases "py_getitem g ''group''") auto
  then have svc: "group_service g = categorize_group name"
    by (simp add: group_service_def)
  show ?case
  proof (cases "categorize_group name = ''Other Services''")
    case True
    with Cons.prems name have "organize_loop gs ss (un @ [g]) = Inr (ss', un')" by simp
    from Cons.IH [OF this] show ?thesis using True svc by auto
  next
    case False
    with Cons.prems name
    have "organize_loop gs (structure_append ss (categorize_group name) g) un = Inr (ss', un')"
      by simp
    from Cons.IH [OF this] show ?thesis using False svc
      by (auto simp: map_of_structure_append split: option.splits)
  qed
qed

lemma organize_loop_total:
  "\<forall>g\<in>set gs. \<exists>n. py_getitem g ''group'' = Inr n \<Longrightarrow>
   \<exists>ss' un'. organize_loop gs ss un = Inr (ss', un')"
  by (induction gs arbitrary: ss un) (auto simp: Let_def)

lemma service_emitted:
  assumes "organize_loop gs [] [] = Inr (ss, un)" and "''Other Services'' \<notin> set names"
  shows "emit_services names ss @ emit_uncategorized un =
         map sub_group (buckets (names @ [''Other Services'']) group_service gs)"
proof -
  from organize_loop_result [OF assms(1)]
  have un: "un = filter (\<lambda>g. group_service g = ''Other Services'') gs"
    and ss: "\<And>s. map_of ss s =
      (if s = ''Other Services'' \<or> filter (\<lambda>g. group_service g = s) gs = [] then None
       else Some (filter (\<lambda>g. group_service g = s) gs))"
    by auto
  have "emit_services names ss = map sub_group (buckets names group_service gs)"
    using assms(2)
    by (induction names) (auto simp: ss buckets_def)
  moreover have "emit_uncategorized un = map sub_group (buckets [''Other Services''] group_service gs)"
    by (simp add: emit_uncategorized_def un buckets_def)
  ultimately show ?thesis by (simp add: buckets_def)
qed

lemma categorize_in_range:
  "categorize_in table name \<in> set (map fst table @ [''Other Services''])"
  by (induction table) force+

lemma service_keys_distinct: "distinct (map fst SERVICE_GROUPS @ [''Other Services''])"
  by (simp add: SERVICE_GROUPS_def)

lemma group_service_named:
  "py_getitem g ''group'' = Inr n \<Longrightarrow>
   group_service g \<in> set (map fst SERVICE_GROUPS @ [''Other Services''])"
  using categorize_in_range [of SERVICE_GROUPS n]
  by (simp add: group_service_def categorize_group_def)

lemma service_new_groups_buckets:
  assumes "py_getitem api_tab ''groups'' = Inr (JArr (intro # groups))"
    and "\<forall>g\<in>set groups. \<exists>n. py_getitem g ''group'' = Inr n"
  shows "service_new_groups api_tab =
         Inr (intro # map sub_group
                (buckets (map fst SERVICE_GROUPS @ [''Other Services'']) group_service groups))"
proof -
  from organize_loop_total [OF assms(2)] obtain ss un
    where loop: "organize_loop groups [] [] = Inr (ss, un)" by blast
  have "''Other Services'' \<notin> set (map fst SERVICE_GROUPS)"
    by (simp add: SERVICE_GROUPS_def)
  from service_emitted [OF loop this] loop assms(1) show ?thesis
    by (simp add: service_new_groups_def)
qed

lemma categorize_in_first:
  "i < length table \<Longrightarrow> name \<in> JStr ` set (snd (table ! i)) \<Longrightarrow>
   \<forall>j<i. name \<notin> JStr ` set (snd (table ! j)) \<Longrightarrow>
   categorize_in table name = fst (table ! i)"
proof (induction table arbitrary: i)
  case Nil
  then show ?case by simp
next
  case (Cons kv table)
  obtain service members where kv: "kv = (service, members)" by (cases kv)
  show ?case
  proof (cases i)
    case 0
    with Cons.prems(2) kv show ?thesis by simp
  next
    case (Suc i')
    from Cons.prems(3) Suc have "name \<notin> JStr ` set (snd ((kv # table) ! 0))" by blast
    then have miss: "name \<notin> JStr ` set members" by (simp add: kv)
    have len: "i' < length table" using Cons.prems(1) Suc by simp
    have hit: "name \<in> JStr ` set (snd (table ! i'))" using Cons.prems(2) Suc by simp
    have earlier: "\<forall>j<i'. name \<notin> JStr ` set (snd (table ! j))"
    proof (intro allI impI)
      fix j assume "j < i'"
      then have "Suc j < i" using Suc by simp
      with Cons.prems(3) have "name \<notin> JStr ` set (snd ((kv # table) ! Suc j))" by blast
      then show "name \<notin> JStr ` set (snd (table ! j))" by simp
    qed
    have "categorize_in table name = fst (table ! i')"
      by (rule Cons.IH [OF len hit earlier])
    with miss show ?thesis by (simp add: kv Suc)
  qed
qed

lemma categorize_in_none:
  "\<forall>kv\<in>set table. name \<notin> JStr ` set (snd kv) \<Longrightarrow> categorize_in table name = ''Other Services''"
  by (induction table) auto

section \<open>Properties of the tree builders\<close>

text \<open>
  Claim C4: the groups a tree builder emits hold every input item exactly once (as
  multisets, the items of all groups together are the input), and the items of each
  group stand in the order they have in the input. This is shown for the action-type
  builder \<open>categorize_endpoints\<close> on any sequence of page names, and for the
  service-level builder on the category groups that follow the introduction entry.
\<close>

theorem tree_builder_stable_partition:
  "(\<exists>cats. categorize_endpoints (map JStr pages) = Inr cats \<and>
       mset (concat (map snd cats)) = mset (map JStr pages) \<and>
       (\<forall>kv\<in>set cats. subseq (snd kv) (map JStr pages))) \<and>
   (py_getitem api_tab ''groups'' = Inr (JArr (intro # groups)) \<and>
    (\<forall>g\<in>set groups. \<exists>n. py_getitem g ''group'' = Inr n) \<longrightarrow>
     (\<exists>emitted. service_new_groups api_tab = Inr (intro # emitted) \<and>
        mset (concat (map group_pages emitted)) = mset groups \<and>
        (\<forall>g\<in>set emitted. subseq (group_pages g) groups)))"
proof (intro conjI impI)
  obtain cats where c: "categorize_endpoints (map JStr pages) = Inr cats"
    using categorize_endpoints_total by blast
  then have b: "cats = buckets action_names page_category (map JStr pages)"
    by (rule categorize_endpoints_buckets)
  have "mset (concat (map snd cats)) = mset (map JStr pages)"
    unfolding b by (rule buckets_mset [OF action_names_distinct]) (auto simp: page_category_range)
  moreover have "\<forall>kv\<in>set cats. subseq (snd kv) (map JStr pages)"
    unfolding b by (blast intro: buckets_subseq)
  ultimately show "\<exists>cats. categorize_endpoints (map JStr pages) = Inr cats \<and>
       mset (concat (map snd cats)) = mset (map JStr pages) \<and>
       (\<forall>kv\<in>set cats. subseq (snd kv) (map JStr pages))"
    using c by blast
next
  assume a: "py_getitem api_tab ''groups'' = Inr (JArr (intro # groups)) \<and>
    (\<forall>g\<in>set groups. \<exists>n. py_getitem g ''group'' = Inr n)"
  let ?keys = "map fst SERVICE_GROUPS @ [''Other Services'']"
  let ?bs = "buckets ?keys group_service groups"
  from a have a1: "py_getitem api_tab ''groups'' = Inr (JArr (intro # groups))"
    and a2: "\<forall>g\<in>set groups. \<exists>n. py_getitem g ''group'' = Inr n" by blast+
  have r: "service_new_groups api_tab = Inr (intro # map sub_group ?bs)"
    by (rule service_new_groups_buckets [OF a1 a2])
  have "mset (concat (map snd ?bs)) = mset groups"
  proof (rule buckets_mset [OF service_keys_distinct], rule ballI)
    fix g assume "g \<in> set groups"
    with a2 obtain n where "py_getitem g ''group'' = Inr n" by blast
    then show "group_service g \<in> set ?keys" by (rule group_service_named)
  qed
  then have m: "mset (concat (map group_pages (map sub_group ?bs))) = mset groups"
    by (simp add: comp_def)
  have s: "\<forall>g\<in>set (map sub_group ?bs). subseq (group_pages g) groups"
  proof
    fix g assume "g \<in> set (map sub_group ?bs)"
    then obtain kv where "kv \<in> set ?bs" and "g = sub_group kv" by auto
    then show "subseq (group_pages g) groups"
      using buckets_subseq [of kv ?keys group_service groups] by simp
  qed
  from r m s show "\<exists>emitted. service_new_groups api_tab = Inr (intro # emitted) \<and>
        mset (concat (map group_pages emitted)) = mset groups \<and>
        (\<forall>g\<in>set emitted. subseq (group_pages g) groups)"
    by blast
qed


theorem tree_builder_stable_partition_witness:
  "(\<exists>cats. categorize_endpoints (map JStr [''cam/create-a'', ''cam/get-b'', ''cam/add-c'']) = Inr cats \<and>
       mset (concat (map snd cats)) = mset (map JStr [''cam/create-a'', ''cam/get-b'', ''cam/add-c''])) \<and>
   (\<exists>emitted. service_new_groups
        (JObj [(''tab'', JStr ''API reference''),
               (''groups'', JArr [intro_group,
                  JObj [(''group'', JStr ''Video''), (''pages'', JArr [])],
                  JObj [(''group'', JStr ''Zebra''), (''pages'', JArr [])],
                  JObj [(''group'', JStr ''Camera''), (''pages'', JArr [])]])])
        = Inr (intro_group # emitted) \<and>
      mset (concat (map group_pages emitted)) =
        mset [JObj [(''group'', JStr ''Video''), (''pages'', JArr [])],
              JObj [(''group'', JStr ''Zebra''), (''pages'', JArr [])],
              JObj [(''group'', JStr ''Camera''), (''pages'', JArr [])]])"
  using tree_builder_stable_partition
    [of "[''cam/create-a'', ''cam/get-b'', ''cam/add-c'']"
        "JObj [(''tab'', JStr ''API reference''),
               (''groups'', JArr [intro_group,
                  JObj [(''group'', JStr ''Video''), (''pages'', JArr [])],
                  JObj [(''group'', JStr ''Zebra''), (''pages'', JArr [])],
                  JObj [(''group'', JStr ''Camera''), (''pages'', JArr [])]])]"
        intro_group
        "[JObj [(''group'', JStr ''Video''), (''pages'', JArr [])],
          JObj [(''group'', JStr ''Zebra''), (''pages'', JArr [])],
          JObj [(''group'', JStr ''Camera''), (''pages'', JArr [])]]"]
  by auto

text \<open>
  Claim C5: \<open>categorize_group\<close> returns one bucket: the first bucket of \<open>SERVICE_GROUPS\<close>,
  in its declared order, whose member list holds the name, and \<open>Other Services\<close> when no
  member list holds it. The service groups are emitted in the declared order of the
  table, a bucket that received no group is left out, and \<open>Other Services\<close>, when it
  received a group, is the last group.
\<close>

theorem service_classification_order:
  "(\<forall>i. i < length SERVICE_GROUPS \<and> name \<in> JStr ` set (snd (SERVICE_GROUPS ! i)) \<and>
        (\<forall>j<i. name \<notin> JStr ` set (snd (SERVICE_GROUPS ! j)))
        \<longrightarrow> categorize_group name = fst (SERVICE_GROUPS ! i)) \<and>
   ((\<forall>kv\<in>set SERVICE_GROUPS. name \<notin> JStr ` set (snd kv))
        \<longrightarrow> categorize_group name = ''Other Services'') \<and>
   (py_getitem api_tab ''groups'' = Inr (JArr (intro # groups)) \<and>
    (\<forall>g\<in>set groups. \<exists>n. py_getitem g ''group'' = Inr n) \<longrightarrow>
     (\<exists>emitted. service_new_groups api_tab = Inr (intro # emitted) \<and>
        map (\<lambda>g. py_getitem g ''group'') emitted =
        map (\<lambda>s. Inr (JStr s))
          (filter (\<lambda>s. \<exists>g\<in>set groups. group_service g = s)
             (map fst SERVICE_GROUPS @ [''Other Services'']))))"
proof (intro conjI impI allI)
  fix i
  assume "i < length SERVICE_GROUPS \<and> name \<in> JStr ` set (snd (SERVICE_GROUPS ! i)) \<and>
        (\<forall>j<i. name \<notin> JStr ` set (snd (SERVICE_GROUPS ! j)))"
  then have "i < length SERVICE_GROUPS" "name \<in> JStr ` set (snd (SERVICE_GROUPS ! i))"
    "\<forall>j<i. name \<notin> JStr ` set (snd (SERVICE_GROUPS ! j))" by blast+
  then show "categorize_group name = fst (SERVICE_GROUPS ! i)"
    unfolding categorize_group_def by (rule categorize_in_first)
next
  assume "\<forall>kv\<in>set SERVICE_GROUPS. name \<notin> JStr ` set (snd kv)"
  then show "categorize_group name = ''Other Services''"
    unfolding categorize_group_def by (rule categorize_in_none)
next
  assume a: "py_getitem api_tab ''groups'' = Inr (JArr (intro # groups)) \<and>
    (\<forall>g\<in>set groups. \<exists>n. py_getitem g ''group'' = Inr n)"
  let ?keys = "map fst SERVICE_GROUPS @ [''Other Services'']"
  let ?bs = "buckets ?keys group_service groups"
  from a have a1: "py_getitem api_tab ''groups'' = Inr (JArr (intro # groups))"
    and a2: "\<forall>g\<in>set groups. \<exists>n. py_getitem g ''group'' = Inr n" by blast+
  have r: "service_new_groups api_tab = Inr (intro # map sub_group ?bs)"
    by (rule service_new_groups_buckets [OF a1 a2])
  have "map (\<lambda>g. py_getitem g ''group'') (map sub_group ?bs) =
        map (\<lambda>s. Inr (JStr s)) (map fst ?bs)"
    by (simp add: sub_group_def comp_def)
  also have "map fst ?bs = filter (\<lambda>s. \<exists>g\<in>set groups. group_service g = s) ?keys"
    by (rule buckets_keys)
  finally show "\<exists>emitted. service_new_groups api_tab = Inr (intro # emitted) \<and>
        map (\<lambda>g. py_getitem g ''group'') emitted =
        map (\<lambda>s. Inr (JStr s))
          (filter (\<lambda>s. \<exists>g\<in>set groups. group_service g = s) ?keys)"
    using r by blast
qed


theorem service_classification_order_witness:
  "categorize_group (JStr ''Users'') = ''Core Services'' \<and>
   categorize_group (JStr ''Zebra'') = ''Other Services'' \<and>
   (\<exists>emitted. service_new_groups
        (JObj [(''tab'', JStr ''API reference''),
               (''groups'', JArr [intro_group,
                  JObj [(''group'', JStr ''Video''), (''pages'', JArr [])],
                  JObj [(''group'', JStr ''Zebra''), (''pages'', JArr [])],
                  JObj [(''group'', JStr ''Users''), (''pages'', JArr [])]])])
        = Inr (intro_group # emitted) \<and>
      map (\<lambda>g. py_getitem g ''group'') emitted =
        [Inr (JStr ''Core Services''), Inr (JStr ''Media & Video''), Inr (JStr ''Other Services'')])"
proof -
  let ?groups = "[JObj [(''group'', JStr ''Video''), (''pages'', JArr [])],
                  JObj [(''group'', JStr ''Zebra''), (''pages'', JArr [])],
                  JObj [(''group'', JStr ''Users''), (''pages'', JArr [])]]"
  let ?tab = "JObj [(''tab'', JStr ''API reference''), (''groups'', JArr (intro_group # ?groups))]"
  have first: "0 < length SERVICE_GROUPS \<and> JStr ''Users'' \<in> JStr ` set (snd (SERVICE_GROUPS ! 0)) \<and>
        (\<forall>j<0. JStr ''Users'' \<notin> JStr ` set (snd (SERVICE_GROUPS ! j)))"
    by (simp add: SERVICE_GROUPS_def)
  have none: "\<forall>kv\<in>set SERVICE_GROUPS. JStr ''Zebra'' \<notin> JStr ` set (snd kv)"
    by (simp add: SERVICE_GROUPS_def)
  have tab: "py_getitem ?tab ''groups'' = Inr (JArr (intro_group # ?groups)) \<and>
    (\<forall>g\<in>set ?groups. \<exists>n. py_getitem g ''group'' = Inr n)"
    by simp
  have svc: "filter (\<lambda>s. \<exists>g\<in>set ?groups. group_service g = s)
               (map fst SERVICE_GROUPS @ [''Other Services'']) =
             [''Core Services'', ''Media & Video'', ''Other Services'']"
    by (simp add: group_service_def categorize_group_def SERVICE_GROUPS_def)
  from service_classification_order [of "JStr ''Users''" ?tab intro_group ?groups] first
  have a: "categorize_group (JStr ''Users'') = fst (SERVICE_GROUPS ! 0)" by blast
  from service_classification_order [of "JStr ''Zebra''" ?tab intro_group ?groups] none tab
  have b: "categorize_group (JStr ''Zebra'') = ''Other Services''"
    and c: "\<exists>emitted. service_new_groups ?tab = Inr (intro_group # emitted) \<and>
        map (\<lambda>g. py_getitem g ''group'') emitted =
        map (\<lambda>s. Inr (JStr s))
          (filter (\<lambda>s. \<exists>g\<in>set ?groups. group_service g = s)
             (map fst SERVICE_GROUPS @ [''Other Services'']))"
    by blast+
  from a have a': "categorize_group (JStr ''Users'') = ''Core Services''"
    by (simp add: SERVICE_GROUPS_def)
  from c [unfolded svc] have c': "\<exists>emitted. service_new_groups ?tab = Inr (intro_group # emitted) \<and>
        map (\<lambda>g. py_getitem g ''group'') emitted =
        [Inr (JStr ''Core Services''), Inr (JStr ''Media & Video''), Inr (JStr ''Other Services'')]"
    by simp
  from a' b c' show ?thesis by simp
qed

section \<open>The accordion threshold\<close>


lemma buckets_filter_nonempty [simp]:
  "filter (\<lambda>kv. snd kv \<noteq> []) (buckets keys f xs) = buckets keys f xs"
  by (simp add: buckets_def)

lemma accordion_group_small:
  assumes "py_getitem grp ''pages'' = Inr (JArr pages)" and "length pages \<le> 10"
    and "accordion_group grp = Inr g'"
  shows "g' = grp"
  using assms by (auto simp: accordion_group_def split: sum.splits)

lemma accordion_group_large:
  assumes pages: "py_getitem grp ''pages'' = Inr (JArr pages)" and big: "11 \<le> length pages"
    and ok: "accordion_group grp = Inr g'"
  shows "\<exists>name. py_getitem grp ''group'' = Inr name \<and>
           g' = JObj [(''group'', name),
                      (''pages'', JArr (map sub_group (buckets action_names page_category pages)))] \<and>
           mset (concat (map snd (buckets action_names page_category pages))) = mset pages"
proof -
  from ok obtain name where name: "py_getitem grp ''group'' = Inr name"
    by (cases "py_getitem grp ''group''") (auto simp: accordion_group_def)
  from ok name pages big obtain cats where cats: "categorize_endpoints pages = Inr cats"
    and g': "g' = JObj [(''group'', name),
                 (''pages'', JArr (map sub_group (filter (\<lambda>kv. snd kv \<noteq> []) cats)))]"
    by (cases "categorize_endpoints pages") (auto simp: accordion_group_def)
  have b: "cats = buckets action_names page_category pages"
    using cats by (rule categorize_endpoints_buckets)
  from cats obtain cs where "categorize_loop pages empty_categories = Inr cs"
    by (auto simp: categorize_endpoints_def split: sum.splits)
  then obtain ps where ps: "pages = map JStr ps"
    using categorize_loop_strings by blast
  have "mset (concat (map snd (buckets action_names page_category pages))) = mset pages"
    by (rule buckets_mset [OF action_names_distinct]) (auto simp: ps page_category_range)
  with name g' b show ?thesis by simp
qed









section \<open>The introduction entry across a merge\<close>

lemma find_api_tab_found:
  "find_api_tab ts k = Inr (Some (i, tab)) \<Longrightarrow>
   k \<le> i \<and> i - k < length ts \<and> ts ! (i - k) = tab \<and>
   py_getitem tab ''tab'' = Inr (JStr ''API reference'') \<and>
   (\<forall>j<i - k. \<exists>n. py_getitem (ts ! j) ''tab'' = Inr n \<and> n \<noteq> JStr ''API reference'')"
proof (induction ts arbitrary: k)
  case Nil
  then show ?case by simp
next
  case (Cons t ts)
  from Cons.prems obtain n where n: "py_getitem t ''tab'' = Inr n"
    by (cases "py_getitem t ''tab''") auto
  show ?case
  proof (cases "n = JStr ''API reference''")
    case True
    with Cons.prems n show ?thesis by auto
  next
    case False
    with Cons.prems n have "find_api_tab ts (Suc k) = Inr (Some (i, tab))" by simp
    from Cons.IH [OF this] have ih: "Suc k \<le> i" "i - Suc k < length ts" "ts ! (i - Suc k) = tab"
      "py_getitem tab ''tab'' = Inr (JStr ''API reference'')"
      "\<forall>j<i - Suc k. \<exists>n. py_getitem (ts ! j) ''tab'' = Inr n \<and> n \<noteq> JStr ''API reference''"
      by blast+
    from ih(1) obtain m where m: "i - k = Suc m" "i - Suc k = m"
      by (metis Suc_diff_le diff_Suc_Suc)
    have "\<forall>j<i - k. \<exists>n. py_getitem ((t # ts) ! j) ''tab'' = Inr n \<and> n \<noteq> JStr ''API reference''"
    proof (intro allI impI)
      fix j assume j: "j < i - k"
      show "\<exists>n. py_getitem ((t # ts) ! j) ''tab'' = Inr n \<and> n \<noteq> JStr ''API reference''"
      proof (cases j)
        case 0
        with n False show ?thesis by simp
      next
        case (Suc j')
        with j m have "j' < i - Suc k" by simp
        with ih(5) Suc show ?thesis by simp
      qed
    qed
    with ih m show ?thesis by simp
  qed
qed

lemma find_api_tab_intro:
  "m < length ts \<Longrightarrow> py_getitem (ts ! m) ''tab'' = Inr (JStr ''API reference'') \<Longrightarrow>
   \<forall>j<m. \<exists>n. py_getitem (ts ! j) ''tab'' = Inr n \<and> n \<noteq> JStr ''API reference'' \<Longrightarrow>
   find_api_tab ts k = Inr (Some (k + m, ts ! m))"
proof (induction ts arbitrary: k m)
  case Nil
  then show ?case by simp
next
  case (Cons t ts)
  show ?case
  proof (cases m)
    case 0
    with Cons.prems show ?thesis by simp
  next
    case (Suc m')
    from Cons.prems(3) Suc obtain n where n: "py_getitem t ''tab'' = Inr n" "n \<noteq> JStr ''API reference''"
      by fastforce
    have len: "m' < length ts" using Cons.prems(1) Suc by simp
    have hit: "py_getitem (ts ! m') ''tab'' = Inr (JStr ''API reference'')"
      using Cons.prems(2) Suc by simp
    have before: "\<forall>j<m'. \<exists>n. py_getitem (ts ! j) ''tab'' = Inr n \<and> n \<noteq> JStr ''API reference''"
    proof (intro allI impI)
      fix j assume "j < m'"
      then have "Suc j < m" using Suc by simp
      with Cons.prems(3) show "\<exists>n. py_getitem (ts ! j) ''tab'' = Inr n \<and> n \<noteq> JStr ''API reference''"
        by fastforce
    qed
    from Cons.IH [OF len hit before, of "Suc k"] n Suc show ?thesis by simp
  qed
qed


lemma find_api_tab_strings:
  "find_api_tab (map JStr ss) k \<noteq> Inr (Some x)"
  by (cases ss) auto

lemma locate_api_tab_shape:
  assumes "locate_api_tab docs_data = Inr (Some (i, tab))"
  shows "\<exists>d n ts t. docs_data = JObj d \<and> map_of d ''navigation'' = Some (JObj n) \<and>
           map_of n ''tabs'' = Some (JArr ts) \<and> tab = JObj t \<and>
           find_api_tab ts 0 = Inr (Some (i, tab))"
proof -
  from assms obtain d where d: "docs_data = JObj d"
    by (cases docs_data) (auto simp: locate_api_tab_def)
  with assms obtain nav where nav: "map_of d ''navigation'' = Some nav"
    by (cases "map_of d ''navigation''") (auto simp: locate_api_tab_def)
  with assms d obtain n where n: "nav = JObj n"
    by (cases nav) (auto simp: locate_api_tab_def)
  with assms d nav obtain tabs where tabs: "map_of n ''tabs'' = Some tabs"
    by (cases "map_of n ''tabs''") (auto simp: locate_api_tab_def)
  from assms d nav n tabs obtain ts0 where it: "py_iter tabs = Inr ts0"
    and f: "find_api_tab ts0 0 = Inr (Some (i, tab))"
    by (cases "py_iter tabs") (auto simp: locate_api_tab_def)
  have "\<exists>ts. tabs = JArr ts"
  proof (cases tabs)
    case (JStr str)
    with it have "ts0 = map JStr (map (\<lambda>c. [c]) str)" by (simp add: comp_def)
    with f find_api_tab_strings show ?thesis by blast
  next
    case (JObj kvs)
    with it have "ts0 = map JStr (map fst kvs)" by (simp add: comp_def)
    with f find_api_tab_strings show ?thesis by blast
  qed (use it in auto)
  then obtain ts where ts: "tabs = JArr ts" by blast
  with it have ts0: "ts0 = ts" by simp
  from find_api_tab_found [OF f] have "py_getitem tab ''tab'' = Inr (JStr ''API reference'')"
    by blast
  then obtain t where t: "tab = JObj t" by (cases tab) auto
  from d nav n tabs ts t f ts0 show ?thesis by blast
qed

lemma locate_after_set:
  assumes "locate_api_tab docs_data = Inr (Some (i, JObj t))"
  shows "locate_api_tab (set_api_tab_groups docs_data i new_groups) =
         Inr (Some (i, JObj (dict_set t ''groups'' new_groups)))"
proof -
  from locate_api_tab_shape [OF assms] obtain d n ts
    where d: "docs_data = JObj d" and nav: "map_of d ''navigation'' = Some (JObj n)"
      and tabs: "map_of n ''tabs'' = Some (JArr ts)"
      and f: "find_api_tab ts 0 = Inr (Some (i, JObj t))" by blast
  from find_api_tab_found [OF f] have i: "i < length ts" and at: "ts ! i = JObj t"
    and name: "py_getitem (JObj t) ''tab'' = Inr (JStr ''API reference'')"
    and before: "\<forall>j<i. \<exists>n. py_getitem (ts ! j) ''tab'' = Inr n \<and> n \<noteq> JStr ''API reference''"
    by simp_all
  let ?tab' = "JObj (dict_set t ''groups'' new_groups)"
  let ?ts' = "ts[i := ?tab']"
  have set: "set_api_tab_groups docs_data i new_groups =
      JObj (dict_set d ''navigation'' (JObj (dict_set n ''tabs'' (JArr ?ts'))))"
    using d nav tabs i at by (simp add: set_api_tab_groups_def)
  have i': "i < length ?ts'" using i by simp
  have name': "py_getitem (?ts' ! i) ''tab'' = Inr (JStr ''API reference'')"
    using name i by (simp add: map_of_dict_set split: option.splits)
  have before': "\<forall>j<i. \<exists>n. py_getitem (?ts' ! j) ''tab'' = Inr n \<and> n \<noteq> JStr ''API reference''"
    using before by simp
  from find_api_tab_intro [OF i' name' before', of 0]
  have "find_api_tab ?ts' 0 = Inr (Some (i, ?tab'))" using i by simp
  then show ?thesis
    by (simp add: set locate_api_tab_def map_of_dict_set)
qed

lemma api_tab_groups_after_set:
  assumes "locate_api_tab docs_data = Inr (Some (i, api_tab))"
  shows "api_tab_groups (set_api_tab_groups docs_data i new_groups) = Inr new_groups"
proof -
  from locate_api_tab_shape [OF assms] obtain t where t: "api_tab = JObj t" by blast
  from locate_after_set [OF assms [unfolded t]] show ?thesis
    by (simp add: api_tab_groups_def map_of_dict_set)
qed

lemma service_merge_keeps_intro:
  assumes "service_merge docs_data = Inr (Merged d)"
  shows "\<exists>intro. first_group docs_data = Inr intro \<and> first_group d = Inr intro"
proof -
  from assms obtain i api_tab new_groups
    where loc: "locate_api_tab docs_data = Inr (Some (i, api_tab))"
      and new: "service_new_groups api_tab = Inr new_groups"
      and d: "d = set_api_tab_groups docs_data i (JArr new_groups)"
    by (auto simp: service_merge_def split: sum.splits option.splits)
  from new obtain groups intro rest where groups: "py_getitem api_tab ''groups'' = Inr groups"
    and intro: "py_first groups = Inr intro" and ng: "new_groups = intro # rest"
    by (auto simp: service_new_groups_def split: sum.splits)
  have "first_group docs_data = Inr intro"
    using loc groups intro by (simp add: first_group_def api_tab_groups_def)
  moreover have "first_group d = Inr intro"
    using api_tab_groups_after_set [OF loc] d ng by (simp add: first_group_def)
  ultimately show ?thesis by blast
qed

lemma update_merge_writes_literal:
  assumes "update_merge docs_data endpoint_nav = Inr (Merged d)"
  shows "first_group d = Inr intro_group"
proof -
  from assms obtain i api_tab nav
    where loc: "locate_api_tab docs_data = Inr (Some (i, api_tab))"
      and d: "d = set_api_tab_groups docs_data i (JArr (intro_group # nav))"
    by (auto simp: update_merge_def split: sum.splits option.splits json.splits)
  from api_tab_groups_after_set [OF loc] d show ?thesis by (simp add: first_group_def)
qed

lemma accordion_merge_writes_literal:
  assumes "accordion_merge docs_data = Inr (Merged d)"
  shows "first_group d = Inr intro_group"
proof -
  from assms obtain i api_tab new_groups
    where loc: "locate_api_tab docs_data = Inr (Some (i, api_tab))"
      and new: "accordion_new_groups api_tab = Inr new_groups"
      and d: "d = set_api_tab_groups docs_data i (JArr new_groups)"
    by (auto simp: accordion_merge_def split: sum.splits option.splits)
  from new obtain rest where "new_groups = intro_group # rest"
    by (auto simp: accordion_new_groups_def split: sum.splits)
  with api_tab_groups_after_set [OF loc] d show ?thesis by (simp add: first_group_def)
qed

text \<open>
  Claim C1: every merge leaves element 0 of the tab's group sequence as it was. The
  service-level regroup does (\<open>service_merge_keeps_intro\<close>: it reads
  \<open>api_tab['groups'][0]\<close>). The full replacement and the accordion regroup, under the
  comment "Keep the introduction group", write a literal group instead
  (\<open>update_merge_writes_literal\<close>, \<open>accordion_merge_writes_literal\<close>): on a document
  whose first group is an \<open>Overview\<close> entry, both persist the literal
  \<open>API documentation\<close> group in its place.
\<close>

theorem intro_group_overwritten:
  "first_group overview_docs = Inr overview_group \<and>
   overview_group \<noteq> intro_group \<and>
   update_merge overview_docs (JArr [camera_group]) =
     Inr (Merged (set_api_tab_groups overview_docs 1 (JArr [intro_group, camera_group]))) \<and>
   first_group (set_api_tab_groups overview_docs 1 (JArr [intro_group, camera_group])) =
     Inr intro_group \<and>
   accordion_merge overview_docs =
     Inr (Merged (set_api_tab_groups overview_docs 1 (JArr [intro_group, camera_group])))"
  by code_simp

section \<open>The summarizer's counts\<close>

text \<open>
  Claim C7: each group name gets the number of string leaves of that group's children
  list, and the total is the number of string leaves of all groups, also when groups at
  different positions share a name. \<open>traverse\<close> keys its counts by name and resets a
  name's count each time it enters a group of that name, so groups that share a name
  share one entry holding the count of the group visited last: on a navigation where
  \<open>Camera\<close> and \<open>Door\<close> each hold a \<open>Get & Find\<close> sub-group (two leaves and one leaf),
  the code reports 1 for \<open>Get & Find\<close> and a total of 1, where the groups hold 3 leaves.
\<close>

theorem shared_group_names_undercounted:
  "count_endpoints_in_nav shared_name_nav =
     Inr [(JStr ''Camera'', 0), (JStr ''Get & Find'', 1), (JStr ''Door'', 0)] \<and>
   analyze_total_endpoints (JObj [(''name'', JStr ''Docs''), (''navigation'', shared_name_nav)]) = Inr 1 \<and>
   spec_leaf_total shared_name_nav = 3"
  by code_simp

section \<open>The icon update\<close>

lemma expand_template_literal [simp]: "expand_template (map Lit t) m = t"
  by (induction t) (auto simp: expand_template_def)

lemma match_icon_sound:
  assumes "match_icon s = Some (m, rest)"
  shows "\<exists>v. m = icon_template v \<and> s = m @ rest \<and> quote_char \<notin> set v"
proof -
  let ?body = "drop 7 s"
  let ?v = "takeWhile (\<lambda>c. c \<noteq> quote_char) ?body"
  let ?r = "dropWhile (\<lambda>c. c \<noteq> quote_char) ?body"
  from assms have pre: "take 7 s = icon_prefix" and r: "?r \<noteq> []"
    and m: "m = icon_prefix @ ?v @ [quote_char]" and rest: "rest = tl ?r"
    by (auto simp: match_icon_def Let_def split: if_splits)
  from r have "hd ?r = quote_char" using hd_dropWhile [of "\<lambda>c. c \<noteq> quote_char" ?body] by auto
  with r rest have r': "?r = quote_char # rest" by (cases ?r) auto
  have "s = take 7 s @ ?body" by simp
  also have "?body = ?v @ ?r" by simp
  finally have "s = icon_prefix @ ?v @ quote_char # rest" using pre r' by simp
  moreover have "quote_char \<notin> set ?v" by (auto dest: set_takeWhileD)
  ultimately show ?thesis using m by (auto simp: icon_template_def)
qed

lemma no_match_in_Nil [simp]: "no_match_in [] follow"
  by (simp add: no_match_in_def)

lemma no_match_in_Cons:
  "no_match_in (c # p) follow = (match_icon (c # p @ follow) = None \<and> no_match_in p follow)"
proof -
  have e: "[0..<length (c # p)] = 0 # map Suc [0..<length p]"
    by (simp add: upt_conv_Cons map_Suc_upt del: upt_Suc)
  show ?thesis
    unfolding no_match_in_def e by (simp add: list.pred_map comp_def)
qed

lemma leftmost_cut_Cons:
  "leftmost_cut (c # p) segs = (match_icon (c # unsplit p segs) = None \<and> leftmost_cut p segs)"
proof (cases segs)
  case Nil
  then show ?thesis by (simp add: no_match_in_Cons)
next
  case (Cons a segs')
  obtain v q where a: "a = (v, q)" by (cases a)
  show ?thesis unfolding Cons a by (auto simp: no_match_in_Cons)
qed

lemma escape_letters:
  "is_ascii_letter (CHR ''a'')" "is_ascii_letter (CHR ''b'')" "is_ascii_letter (CHR ''f'')"
  "is_ascii_letter (CHR ''g'')" "is_ascii_letter (CHR ''n'')" "is_ascii_letter (CHR ''r'')"
  "is_ascii_letter (CHR ''t'')" "is_ascii_letter (CHR ''v'')"
  by code_simp+

lemma zero_is_digit: "is_digit [CHR ''0'']"
  by code_simp

lemma plain_step:
  assumes "\<not> is_ascii_letter d" "\<not> is_digit [d]" "d \<noteq> backslash"
  shows "parse_step [backslash, d] ts = Some ([Lit backslash, Lit d], ts)"
proof -
  from assms(1) escape_letters have l: "d \<noteq> CHR ''a''" "d \<noteq> CHR ''b''" "d \<noteq> CHR ''f''"
    "d \<noteq> CHR ''g''" "d \<noteq> CHR ''n''" "d \<noteq> CHR ''r''" "d \<noteq> CHR ''t''" "d \<noteq> CHR ''v''"
    by blast+
  from assms(2) zero_is_digit have z: "d \<noteq> CHR ''0''" by blast
  from l assms(3) have e: "escape_char d = None"
    unfolding escape_char_def by simp
  show ?thesis
    unfolding parse_step_def using l(4) z e assms(1,2) by simp
qed

lemma plain_escapes_tokens:
  "plain_escapes s \<Longrightarrow>
     \<exists>toks. template_tokens s = Some toks \<and> parse_tokens toks = Some (map Lit s)"
proof (induction s rule: plain_escapes.induct)
  case 1
  show ?case by simp
next
  case (2 c)
  then show ?case by (simp add: parse_step_def)
next
  case (3 c d cs)
  show ?case
  proof (cases "c = backslash")
    case True
    with "3.prems" have d: "\<not> is_ascii_letter d" "\<not> is_digit [d]" "d \<noteq> backslash"
      and rest: "plain_escapes cs" by simp_all
    from "3.IH"(1) [OF True rest] obtain toks
      where t: "template_tokens cs = Some toks" and p: "parse_tokens toks = Some (map Lit cs)"
      by blast
    have "template_tokens (c # d # cs) = Some ([c, d] # toks)" using True t by simp
    moreover have "parse_tokens ([c, d] # toks) = Some (map Lit (c # d # cs))"
      using True p plain_step [OF d, of toks] by simp
    ultimately show ?thesis by blast
  next
    case False
    with "3.prems" have rest: "plain_escapes (d # cs)" by simp
    from "3.IH"(2) [OF False rest] obtain toks
      where t: "template_tokens (d # cs) = Some toks"
        and p: "parse_tokens toks = Some (map Lit (d # cs))"
      by blast
    have "template_tokens (c # d # cs) = Some ([c] # toks)" using False t by simp
    moreover have "parse_tokens ([c] # toks) = Some (map Lit (c # d # cs))"
      using p by (simp add: parse_step_def)
    ultimately show ?thesis by blast
  qed
qed

lemma parse_template_plain_escapes:
  "plain_escapes s \<Longrightarrow> parse_template s = Some (map Lit s)"
  using plain_escapes_tokens [of s] by (auto simp: parse_template_def)

lemma read_text_no_cr: "CHR 0x0D \<notin> set file \<Longrightarrow> read_text file = file"
  by (induction "file" rule: read_text.induct) auto

lemma match_icon_complete:
  assumes "quote_char \<notin> set v"
  shows "match_icon (icon_template v @ rest) = Some (icon_template v, rest)"
proof -
  have l: "length icon_prefix = 7" by (simp add: icon_prefix_def)
  have t: "take 7 (icon_template v @ rest) = icon_prefix"
    by (simp add: icon_template_def l)
  have d: "drop 7 (icon_template v @ rest) = v @ quote_char # rest"
    by (simp add: icon_template_def l)
  have tw: "takeWhile (\<lambda>c. c \<noteq> quote_char) (v @ quote_char # rest) = v"
    using assms by (auto simp: takeWhile_tail)
  have dw: "dropWhile (\<lambda>c. c \<noteq> quote_char) (v @ quote_char # rest) = quote_char # rest"
    using assms by (auto simp: dropWhile_append3)
  show ?thesis
    unfolding match_icon_def t d Let_def tw dw by (simp add: icon_template_def)
qed

lemma re_sub_icon_cut:
  "\<exists>p0 segs. s = unsplit p0 segs \<and> leftmost_cut p0 segs \<and>
     re_sub_icon (map Lit t) s = resplit t p0 segs"
proof (induction "map Lit t" s rule: re_sub_icon.induct)
  case (1 s)
  show ?case
  proof (cases "s = []")
    case True
    show ?thesis
      by (rule exI [of _ "[]"], rule exI [of _ "[]"]) (simp add: True re_sub_icon.simps)
  next
    case False
    show ?thesis
    proof (cases "match_icon s")
      case None
      from "1.hyps"(1) [OF False None] obtain p0 segs
        where a: "tl s = unsplit p0 segs" and c: "leftmost_cut p0 segs"
          and b: "re_sub_icon (map Lit t) (tl s) = resplit t p0 segs" by blast
      from False a have s: "s = hd s # unsplit p0 segs" by (cases s) auto
      have u: "unsplit (hd s # p0) segs = hd s # unsplit p0 segs"
        by (cases segs) auto
      have r: "resplit t (hd s # p0) segs = hd s # resplit t p0 segs"
        by (cases segs) auto
      have "s = unsplit (hd s # p0) segs" using s u by simp
      moreover have "leftmost_cut (hd s # p0) segs"
        using c None s by (simp add: leftmost_cut_Cons)
      moreover from False None b
      have "re_sub_icon (map Lit t) s = resplit t (hd s # p0) segs"
        by (subst re_sub_icon.simps) (simp add: r)
      ultimately show ?thesis by blast
    next
      case (Some mr)
      obtain m rest where mr: "mr = (m, rest)" by (cases mr)
      from "1.hyps"(2) [OF False Some [unfolded mr] refl] obtain p0 segs
        where a: "rest = unsplit p0 segs" and c: "leftmost_cut p0 segs"
          and b: "re_sub_icon (map Lit t) rest = resplit t p0 segs" by blast
      from match_icon_sound [OF Some [unfolded mr]] obtain v
        where m: "m = icon_template v" and s: "s = m @ rest" and v: "quote_char \<notin> set v" by blast
      have "s = unsplit [] ((v, p0) # segs)"
        using s m a by simp
      moreover have "leftmost_cut [] ((v, p0) # segs)" using c v by simp
      moreover have "re_sub_icon (map Lit t) s = resplit t [] ((v, p0) # segs)"
        using False Some mr b by (subst re_sub_icon.simps) simp
      ultimately show ?thesis by blast
    qed
  qed
qed

text \<open>A text has one cut only that holds every match from left to right.\<close>

lemma icon_template_inject: "icon_template v = icon_template w \<Longrightarrow> v = w"
  by (simp add: icon_template_def)

lemma unsplit_Cons: "unsplit (c # p) segs = c # unsplit p segs"
  by (cases segs) auto

lemma cut_gap_first:
  "leftmost_cut (c # p) segs \<Longrightarrow> match_icon (unsplit (c # p) segs) = None"
  by (simp add: leftmost_cut_Cons unsplit_Cons)

lemma cut_match_first:
  assumes "leftmost_cut [] ((v, p) # segs)"
  shows "match_icon (unsplit [] ((v, p) # segs)) = Some (icon_template v, unsplit p segs)"
  using assms by (simp add: match_icon_complete)

lemma icon_template_not_Nil: "icon_template v @ rest \<noteq> []"
  by (simp add: icon_template_def)


lemma cut_gap_not_Nil: "unsplit (c # p) segs \<noteq> []"
  by (simp add: unsplit_Cons)

lemma cut_match_not_Nil: "unsplit [] ((v, p) # segs) \<noteq> []"
  by (simp add: icon_template_def)

lemma cut_front_differs:
  assumes "leftmost_cut (c # p) segs" and "leftmost_cut [] segs'"
  shows "unsplit (c # p) segs \<noteq> unsplit [] segs'"
proof (cases segs')
  case Nil
  have "unsplit [] segs' = []" unfolding Nil by simp
  with cut_gap_not_Nil [of c p segs] show ?thesis by simp
next
  case (Cons a rs)
  obtain w r where a: "a = (w, r)" by (cases a)
  have m: "match_icon (unsplit [] segs') = Some (icon_template w, unsplit r rs)"
    unfolding Cons a by (rule cut_match_first [OF assms(2) [unfolded Cons a]])
  have n: "match_icon (unsplit (c # p) segs) = None"
    by (rule cut_gap_first [OF assms(1)])
  show ?thesis
  proof
    assume "unsplit (c # p) segs = unsplit [] segs'"
    with n have "match_icon (unsplit [] segs') = None" by simp
    with m show False by simp
  qed
qed

lemma cut_match_same:
  assumes "leftmost_cut [] ((v, p) # ss)" and "leftmost_cut [] ((w, r) # rs)"
    and "unsplit [] ((v, p) # ss) = unsplit [] ((w, r) # rs)"
  shows "v = w \<and> unsplit p ss = unsplit r rs"
proof -
  have m1: "match_icon (unsplit [] ((v, p) # ss)) = Some (icon_template v, unsplit p ss)"
    by (rule cut_match_first [OF assms(1)])
  have m2: "match_icon (unsplit [] ((w, r) # rs)) = Some (icon_template w, unsplit r rs)"
    by (rule cut_match_first [OF assms(2)])
  from m1 have "match_icon (unsplit [] ((w, r) # rs)) = Some (icon_template v, unsplit p ss)"
    unfolding assms(3) .
  with m2 have "Some (icon_template w, unsplit r rs) = Some (icon_template v, unsplit p ss)"
    by (rule trans [OF sym])
  then have "icon_template v = icon_template w" and "unsplit p ss = unsplit r rs"
    by simp_all
  then show ?thesis by (simp add: icon_template_inject)
qed

lemma leftmost_cut_unique:
  "leftmost_cut p0 segs \<Longrightarrow> leftmost_cut q0 segs' \<Longrightarrow> unsplit p0 segs = unsplit q0 segs'
     \<Longrightarrow> p0 = q0 \<and> segs = segs'"
proof (induction "length (unsplit p0 segs)" arbitrary: p0 segs q0 segs' rule: less_induct)
  case less
  note pc = less.prems(1) and qc = less.prems(2) and eq = less.prems(3)
  show ?case
  proof (cases p0)
    case (Cons c p)
    show ?thesis
    proof (cases q0)
      case q: (Cons d q)
      from pc have pc': "leftmost_cut p segs" unfolding Cons by (simp add: leftmost_cut_Cons)
      from qc have qc': "leftmost_cut q segs'" unfolding q by (simp add: leftmost_cut_Cons)
      from eq have "c # unsplit p segs = d # unsplit q segs'"
        unfolding Cons q unsplit_Cons .
      then have cd: "c = d" and eq': "unsplit p segs = unsplit q segs'" by simp_all
      have "length (unsplit p segs) < length (unsplit p0 segs)"
        unfolding Cons unsplit_Cons by simp
      from less.hyps [OF this pc' qc' eq'] have "p = q \<and> segs = segs'" .
      with cd show ?thesis unfolding Cons q by simp
    next
      case q: Nil
      from cut_front_differs [OF pc [unfolded Cons] qc [unfolded q]] eq [unfolded Cons q]
      have False by (rule notE)
      then show ?thesis ..
    qed
  next
    case Nil
    show ?thesis
    proof (cases q0)
      case q: (Cons d q)
      from cut_front_differs [OF qc [unfolded q] pc [unfolded Nil]] eq [unfolded Nil q, symmetric]
      have False by (rule notE)
      then show ?thesis ..
    next
      case q: Nil
      show ?thesis
      proof (cases segs)
        case s: Nil
        show ?thesis
        proof (cases segs')
          case Nil
          show ?thesis unfolding \<open>p0 = []\<close> q s Nil by simp
        next
          case (Cons b rs)
          obtain w r where b: "b = (w, r)" by (cases b)
          from eq have "[] = unsplit [] ((w, r) # rs)" unfolding \<open>p0 = []\<close> q s Cons b by simp
          with cut_match_not_Nil [of w r rs] have False by simp
          then show ?thesis ..
        qed
      next
        case s: (Cons a ss)
        obtain v r where a: "a = (v, r)" by (cases a)
        show ?thesis
        proof (cases segs')
          case Nil
          from eq have "unsplit [] ((v, r) # ss) = []" unfolding \<open>p0 = []\<close> q s a Nil by simp
          with cut_match_not_Nil [of v r ss] have False by simp
          then show ?thesis ..
        next
          case (Cons b rs)
          obtain w r' where b: "b = (w, r')" by (cases b)
          from cut_match_same [OF pc [unfolded \<open>p0 = []\<close> s a] qc [unfolded q Cons b]
            eq [unfolded \<open>p0 = []\<close> q s a Cons b]]
          have vw: "v = w" and eq': "unsplit r ss = unsplit r' rs" by simp_all
          from pc have pc': "leftmost_cut r ss" unfolding \<open>p0 = []\<close> s a by simp
          from qc have qc': "leftmost_cut r' rs" unfolding q Cons b by simp
          have "length (unsplit r ss) < length (unsplit p0 segs)"
            unfolding \<open>p0 = []\<close> s a by (simp add: icon_template_def)
          from less.hyps [OF this pc' qc' eq'] have "r = r' \<and> ss = rs" .
          with vw show ?thesis unfolding \<open>p0 = []\<close> q s a Cons b by simp
        qed
      qed
    qed
  qed
qed

text \<open>
  Claim C10, for every file and for every icon whose replacement \<open>icon: "<icon>"\<close> has
  plain escapes (in particular every icon without a backslash). The text read from the
  file has a cut \<open>p0, segs\<close> that holds every match of \<open>icon: "..."\<close>, from left to right
  without overlap, and it is the only such cut. The update puts \<open>icon: "<icon>"\<close> in
  the place of every match and keeps every piece between the matches as it is. The
  file is written with that text and \<open>True\<close> returned exactly when it differs from the
  text read; otherwise the file is left as it is and \<open>False\<close> returned. The text read is
  the file itself when the file has no carriage return; otherwise it is the file with
  \<open>\r\n\<close> and \<open>\r\<close> turned into \<open>\n\<close>, and a rewritten file has those line endings.
\<close>

theorem icon_update_frame:
  assumes "plain_escapes (icon_template new_icon)"
  shows "\<exists>p0 segs.
           read_text file = unsplit p0 segs \<and> leftmost_cut p0 segs \<and>
           (\<forall>q0 segs'. read_text file = unsplit q0 segs' \<and> leftmost_cut q0 segs'
              \<longrightarrow> q0 = p0 \<and> segs' = segs) \<and>
           update_endpoint_icon (Some file) new_icon =
             (if resplit (icon_template new_icon) p0 segs \<noteq> read_text file
              then (Some (resplit (icon_template new_icon) p0 segs), True)
              else (Some file, False)) \<and>
           (CHR 0x0D \<notin> set file \<longrightarrow> read_text file = file)"
proof -
  have tpl: "parse_template (icon_template new_icon) = Some (map Lit (icon_template new_icon))"
    by (rule parse_template_plain_escapes [OF assms])
  from re_sub_icon_cut [of "read_text file" "icon_template new_icon"] obtain p0 segs
    where a: "read_text file = unsplit p0 segs" and c: "leftmost_cut p0 segs"
      and b: "re_sub_icon (map Lit (icon_template new_icon)) (read_text file) =
              resplit (icon_template new_icon) p0 segs"
    by blast
  have u: "\<forall>q0 segs'. read_text file = unsplit q0 segs' \<and> leftmost_cut q0 segs'
              \<longrightarrow> q0 = p0 \<and> segs' = segs"
  proof (intro allI impI)
    fix q0 segs'
    assume h: "read_text file = unsplit q0 segs' \<and> leftmost_cut q0 segs'"
    then have "unsplit p0 segs = unsplit q0 segs'" using a by simp
    from leftmost_cut_unique [OF c conjunct2 [OF h] this]
    show "q0 = p0 \<and> segs' = segs" by simp
  qed
  have d: "update_endpoint_icon (Some file) new_icon =
        (if resplit (icon_template new_icon) p0 segs \<noteq> read_text file
         then (Some (resplit (icon_template new_icon) p0 segs), True)
         else (Some file, False))"
    unfolding b [symmetric] by (simp add: update_endpoint_icon_def tpl Let_def)
  have e: "CHR 0x0D \<notin> set file \<longrightarrow> read_text file = file"
    by (simp add: read_text_no_cr)
  from a c u d e show ?thesis by blast
qed

theorem icon_update_frame_witness:
  "plain_escapes (icon_template ''eye'') \<and>
   read_text two_icons_mdx = unsplit two_icons_front two_icons_segs \<and>
   leftmost_cut two_icons_front two_icons_segs \<and>
   resplit (icon_template ''eye'') two_icons_front two_icons_segs = two_icons_mdx_eye \<and>
   update_endpoint_icon (Some two_icons_mdx) ''eye'' = (Some two_icons_mdx_eye, True) \<and>
   update_endpoint_icon (Some two_icons_mdx_eye) ''eye'' = (Some two_icons_mdx_eye, False)"
proof -
  have h: "plain_escapes (icon_template ''eye'')" by code_simp
  have a: "read_text two_icons_mdx = unsplit two_icons_front two_icons_segs" by code_simp
  have c: "leftmost_cut two_icons_front two_icons_segs" by code_simp
  have r: "resplit (icon_template ''eye'') two_icons_front two_icons_segs = two_icons_mdx_eye"
    by code_simp
  have n: "two_icons_mdx_eye \<noteq> read_text two_icons_mdx" by code_simp
  from icon_update_frame [OF h, of two_icons_mdx] obtain p0 segs
    where u: "\<forall>q0 segs'. read_text two_icons_mdx = unsplit q0 segs' \<and> leftmost_cut q0 segs'
                \<longrightarrow> q0 = p0 \<and> segs' = segs"
      and d: "update_endpoint_icon (Some two_icons_mdx) ''eye'' =
                (if resplit (icon_template ''eye'') p0 segs \<noteq> read_text two_icons_mdx
                 then (Some (resplit (icon_template ''eye'') p0 segs), True)
                 else (Some two_icons_mdx, False))"
    by blast
  from u a c have "two_icons_front = p0 \<and> two_icons_segs = segs" by blast
  with d r n have e1: "update_endpoint_icon (Some two_icons_mdx) ''eye'' = (Some two_icons_mdx_eye, True)"
    by auto
  have e2: "update_endpoint_icon (Some two_icons_mdx_eye) ''eye'' = (Some two_icons_mdx_eye, False)"
    by code_simp
  from h a c r e1 e2 show ?thesis by blast
qed

text \<open>
  Claim C10 as stated, for every file content and every icon value, fails twice.
  \<open>re.sub\<close> reads the replacement as a template, so with the icon \<open>a\\b\<close> (two
  backslashes) the quoted value written is \<open>a\b\<close> (one backslash), not the new icon.
  And the file is read in text mode, so a page with \<open>\r\n\<close> line endings whose icon
  changes is written back with \<open>\n\<close> line endings: characters outside the matches
  change.
\<close>

theorem icon_update_counterexample:
  "update_endpoint_icon (Some (icon_template ''old'')) [CHR ''a'', backslash, backslash, CHR ''b'']
     = (Some (icon_template [CHR ''a'', backslash, CHR ''b'']), True) \<and>
   icon_template [CHR ''a'', backslash, CHR ''b'']
     \<noteq> icon_template [CHR ''a'', backslash, backslash, CHR ''b''] \<and>
   update_endpoint_icon (Some (crlf_mdx ''old'')) ''eye'' = (Some (lf_mdx ''eye''), True) \<and>
   lf_mdx ''eye'' \<noteq> crlf_mdx ''eye''"
  by code_simp

section \<open>The backup and the missing tab\<close>

lemma find_api_tab_absent:
  "\<forall>t\<in>set ts. \<exists>name. py_getitem t ''tab'' = Inr name \<and> name \<noteq> JStr ''API reference''
     \<Longrightarrow> find_api_tab ts i = Inr None"
proof (induction ts arbitrary: i)
  case Nil
  show ?case by simp
next
  case (Cons t ts)
  from Cons.prems obtain name
    where n: "py_getitem t ''tab'' = Inr name" and ne: "name \<noteq> JStr ''API reference''"
    by auto
  from Cons.prems have "\<forall>t\<in>set ts. \<exists>name. py_getitem t ''tab'' = Inr name \<and> name \<noteq> JStr ''API reference''"
    by simp
  from Cons.IH [OF this] have "find_api_tab ts (Suc i) = Inr None" .
  with n ne show ?case by simp
qed

lemma locate_api_tab_absent:
  assumes "py_getitem docs_data ''navigation'' = Inr nav"
    and "py_getitem nav ''tabs'' = Inr (JArr tabs)"
    and "\<forall>t\<in>set tabs. \<exists>name. py_getitem t ''tab'' = Inr name \<and> name \<noteq> JStr ''API reference''"
  shows "locate_api_tab docs_data = Inr None"
  using assms(1,2) find_api_tab_absent [OF assms(3), of 0]
  by (simp add: locate_api_tab_def)

lemma finish_keeps_backup: "backup_json (fst (finish fs result)) = backup_json fs"
  by (cases result rule: sum.exhaust [case_names Inl Inr])
     (auto simp: finish_def split: merged.splits)

lemma load_sample_nav: "load_json (Some ''[]'') = Inr (JArr [])"
  by code_simp

lemma load_compact_docs: "load_json (Some compact_docs_text) = Inr compact_docs"
  by code_simp

lemma load_dumped_docs: "load_json (Some dumped_docs_text) = Inr compact_docs"
  by code_simp

lemma dump_compact_docs: "json_dumps compact_docs = dumped_docs_text"
  by code_simp

lemma load_guides_docs: "load_json (Some guides_docs_text) = Inr guides_docs"
  by code_simp

text \<open>
  Claim C2, amended: in each of the three scripts, whenever the document loads, the
  backup written holds the document as \<open>json.dump\<close> with \<open>indent=2\<close> serializes the parsed
  value, whatever happens afterwards (the tab is found or not, or an exception leaves
  the script).
\<close>

theorem backup_is_reserialized:
  assumes "load_json (docs_json fs) = Inr docs_data"
  shows "backup_json (fst (update_docs_navigation fs)) = Some (json_dumps docs_data) \<and>
         backup_json (fst (create_accordion_navigation fs)) = Some (json_dumps docs_data) \<and>
         backup_json (fst (organize_with_service_groups fs)) = Some (json_dumps docs_data)"
proof -
  let ?fs1 = "fs\<lparr>backup_json := Some (json_dumps docs_data)\<rparr>"
  have a: "backup_json (fst (create_accordion_navigation fs)) = Some (json_dumps docs_data)"
    using assms by (simp add: create_accordion_navigation_def finish_keeps_backup)
  have s: "backup_json (fst (organize_with_service_groups fs)) = Some (json_dumps docs_data)"
    using assms by (simp add: organize_with_service_groups_def finish_keeps_backup)
  have u: "backup_json (fst (update_docs_navigation fs)) = Some (json_dumps docs_data)"
  proof (cases "load_json (nav_json fs)")
    case (Inl out)
    with assms show ?thesis by (simp add: update_docs_navigation_def)
  next
    case (Inr endpoint_nav)
    with assms show ?thesis by (simp add: update_docs_navigation_def finish_keeps_backup)
  qed
  from u a s show ?thesis by simp
qed

theorem backup_is_reserialized_witness:
  "load_json (docs_json (sample_files dumped_docs_text)) = Inr compact_docs \<and>
   backup_json (fst (update_docs_navigation (sample_files dumped_docs_text)))
     = docs_json (sample_files dumped_docs_text) \<and>
   backup_json (fst (create_accordion_navigation (sample_files dumped_docs_text)))
     = docs_json (sample_files dumped_docs_text) \<and>
   backup_json (fst (organize_with_service_groups (sample_files dumped_docs_text)))
     = docs_json (sample_files dumped_docs_text)"
proof -
  have h: "load_json (docs_json (sample_files dumped_docs_text)) = Inr compact_docs"
    by (simp add: sample_files_def load_dumped_docs)
  have d: "docs_json (sample_files dumped_docs_text) = Some (json_dumps compact_docs)"
    by (simp add: sample_files_def dump_compact_docs)
  from backup_is_reserialized [OF h] h show ?thesis unfolding d by simp
qed

text \<open>
  Claim C2 as stated fails: the backup is not a copy of the bytes of the document. A
  document written on one line is backed up over five lines.
\<close>

theorem backup_not_verbatim:
  "backup_json (fst (update_docs_navigation (sample_files compact_docs_text))) = Some dumped_docs_text \<and>
   backup_json (fst (create_accordion_navigation (sample_files compact_docs_text))) = Some dumped_docs_text \<and>
   backup_json (fst (organize_with_service_groups (sample_files compact_docs_text))) = Some dumped_docs_text \<and>
   docs_json (sample_files compact_docs_text) = Some compact_docs_text \<and>
   dumped_docs_text \<noteq> compact_docs_text"
proof -
  have h: "load_json (docs_json (sample_files compact_docs_text)) = Inr compact_docs"
    by (simp add: sample_files_def load_compact_docs)
  have a: "backup_json (fst (create_accordion_navigation (sample_files compact_docs_text)))
             = Some dumped_docs_text"
    using h by (simp add: create_accordion_navigation_def finish_keeps_backup dump_compact_docs)
  have s: "backup_json (fst (organize_with_service_groups (sample_files compact_docs_text)))
             = Some dumped_docs_text"
    using h by (simp add: organize_with_service_groups_def finish_keeps_backup dump_compact_docs)
  have n: "load_json (nav_json (sample_files compact_docs_text)) = Inr (JArr [])"
    by (simp add: sample_files_def load_sample_nav)
  have u: "backup_json (fst (update_docs_navigation (sample_files compact_docs_text)))
             = Some dumped_docs_text"
    using h n by (simp add: update_docs_navigation_def finish_keeps_backup dump_compact_docs)
  have d: "docs_json (sample_files compact_docs_text) = Some compact_docs_text"
    by (simp add: sample_files_def)
  have ne: "dumped_docs_text \<noteq> compact_docs_text" by code_simp
  from u a s d ne show ?thesis by simp
qed

text \<open>
  Claim C6: when the document loads and holds a list of tabs none of which is named
  \<open>API reference\<close>, the accordion regroup and the service-level regroup print the message
  that the tab could not be found and return, and so does the full replacement when
  \<open>_navigation.json\<close> loads and has a length; the only file written is the backup, so
  \<open>docs.json\<close> keeps its bytes.
\<close>

theorem missing_tab_reported:
  assumes "load_json (docs_json fs) = Inr docs_data"
    and "py_getitem docs_data ''navigation'' = Inr nav"
    and "py_getitem nav ''tabs'' = Inr (JArr tabs)"
    and "\<forall>t\<in>set tabs. \<exists>name. py_getitem t ''tab'' = Inr name \<and> name \<noteq> JStr ''API reference''"
  shows "create_accordion_navigation fs
           = (fs\<lparr>backup_json := Some (json_dumps docs_data)\<rparr>, Tab_not_found) \<and>
         organize_with_service_groups fs
           = (fs\<lparr>backup_json := Some (json_dumps docs_data)\<rparr>, Tab_not_found) \<and>
         (\<forall>endpoint_nav n.
            load_json (nav_json fs) = Inr endpoint_nav \<and> py_len endpoint_nav = Inr n \<longrightarrow>
            update_docs_navigation fs
              = (fs\<lparr>backup_json := Some (json_dumps docs_data)\<rparr>, Tab_not_found)) \<and>
         docs_json (fst (create_accordion_navigation fs)) = docs_json fs \<and>
         docs_json (fst (organize_with_service_groups fs)) = docs_json fs \<and>
         docs_json (fst (update_docs_navigation fs)) = docs_json fs"
proof -
  let ?fs1 = "fs\<lparr>backup_json := Some (json_dumps docs_data)\<rparr>"
  have loc: "locate_api_tab docs_data = Inr None"
    by (rule locate_api_tab_absent [OF assms(2,3,4)])
  have a: "create_accordion_navigation fs = (?fs1, Tab_not_found)"
    using assms(1) loc
    by (simp add: create_accordion_navigation_def accordion_merge_def finish_def)
  have s: "organize_with_service_groups fs = (?fs1, Tab_not_found)"
    using assms(1) loc
    by (simp add: organize_with_service_groups_def service_merge_def finish_def)
  have u: "\<forall>endpoint_nav n.
            load_json (nav_json fs) = Inr endpoint_nav \<and> py_len endpoint_nav = Inr n \<longrightarrow>
            update_docs_navigation fs = (?fs1, Tab_not_found)"
    using assms(1) loc
    by (simp add: update_docs_navigation_def update_merge_def finish_def)
  have ud: "docs_json (fst (update_docs_navigation fs)) = docs_json fs"
  proof (cases "load_json (nav_json fs)")
    case (Inl out)
    with assms(1) show ?thesis by (simp add: update_docs_navigation_def)
  next
    case (Inr endpoint_nav)
    show ?thesis
    proof (cases "py_len endpoint_nav")
      case (Inl e)
      with Inr assms(1) show ?thesis
        by (simp add: update_docs_navigation_def update_merge_def finish_def)
    next
      case len: (Inr n)
      with Inr u show ?thesis by simp
    qed
  qed
  from a s u ud show ?thesis by simp
qed

theorem missing_tab_reported_witness:
  "load_json (docs_json (sample_files guides_docs_text)) = Inr guides_docs \<and>
   update_docs_navigation (sample_files guides_docs_text)
     = ((sample_files guides_docs_text)\<lparr>backup_json := Some (json_dumps guides_docs)\<rparr>, Tab_not_found) \<and>
   create_accordion_navigation (sample_files guides_docs_text)
     = ((sample_files guides_docs_text)\<lparr>backup_json := Some (json_dumps guides_docs)\<rparr>, Tab_not_found) \<and>
   organize_with_service_groups (sample_files guides_docs_text)
     = ((sample_files guides_docs_text)\<lparr>backup_json := Some (json_dumps guides_docs)\<rparr>, Tab_not_found) \<and>
   docs_json (fst (update_docs_navigation (sample_files guides_docs_text))) = Some guides_docs_text"
proof -
  have h: "load_json (docs_json (sample_files guides_docs_text)) = Inr guides_docs"
    by (simp add: sample_files_def load_guides_docs)
  have nav: "py_getitem guides_docs ''navigation'' = Inr (JObj [(''tabs'', JArr [guides_tab])])"
    by (simp add: guides_docs_def)
  have tabs: "py_getitem (JObj [(''tabs'', JArr [guides_tab])]) ''tabs'' = Inr (JArr [guides_tab])"
    by simp
  have none: "\<forall>t\<in>set [guides_tab]. \<exists>name. py_getitem t ''tab'' = Inr name \<and> name \<noteq> JStr ''API reference''"
    by (simp add: guides_tab_def)
  have n: "load_json (nav_json (sample_files guides_docs_text)) = Inr (JArr []) \<and> py_len (JArr []) = Inr 0"
    by (simp add: sample_files_def load_sample_nav)
  have d: "docs_json (sample_files guides_docs_text) = Some guides_docs_text"
    by (simp add: sample_files_def)
  from missing_tab_reported [OF h nav tabs none] n h d show ?thesis by metis
qed

end
